theory Spec2Isabelle
  imports Main "HOL-Library.Word"
begin

unbundle bit_operations_syntax

section \<open>Runtime A: the host objects the marshaller touches\<close>

text \<open>
  A \<open>PyObject *\<close> is an address: the index of the object in the list of allocated
  objects. Objects are never moved, and an allocation appends to the list, so a new
  object gets an address no earlier object has.
\<close>

type_synonym addr = nat

text \<open>
  A call either returns a value or stops the process, by reading or writing through a
  null pointer.
\<close>

datatype 'a outcome = Crash | Returns 'a

text \<open>
  The type objects the dispatcher distinguishes. \<open>HeapType b\<close> is a class defined
  in Python with base \<open>b\<close>; \<open>PythonMonkey_BigInt\<close> is the module's own subclass of
  \<open>int\<close>; \<open>PyBool_Type\<close> is the host's \<open>bool\<close>, a subclass of \<open>int\<close>.
\<close>

datatype PyTypeObject =
    PyLong_Type
  | PyBool_Type
  | PythonMonkey_BigInt
  | PyUnicode_Type
  | PyFunction_Type
  | PyCFunction_Type
  | PyDict_Type
  | PyList_Type
  | PyTuple_Type
  | PyFloat_Type
  | PyBytes_Type
  | PyNone_Type
  | PyBaseObject_Type
  | HeapType PyTypeObject

text \<open>
  The header of an object and, for an integer, its digits: \<open>ob_size\<close> is the signed
  digit count (negative for a negative integer), \<open>ob_digit\<close> the digits of the
  magnitude, least significant first, each below \<open>2 ^ PyLong_SHIFT\<close>.
\<close>

record PyObject =
  ob_type :: PyTypeObject
  ob_size :: int
  ob_digit :: "nat list"

datatype PyExc = PyExc_TypeError | PyExc_OverflowError

text \<open>
  The interpreter state: the allocated objects, the address of the shared small integer
  \<open>0\<close>, and the error indicator (\<open>None\<close> when no error is pending). The
  interpreter keeps its small integers in one block of consecutive objects: the shared
  object for \<open>i\<close> from 0 to 256 is at address \<open>small_int_zero + i\<close>.
\<close>

record interp =
  heap :: "PyObject list"
  small_int_zero :: addr
  err :: "(PyExc \<times> string) option"

definition PyErr_Occurred :: "interp \<Rightarrow> bool" where
  "PyErr_Occurred s = (err s \<noteq> None)"

definition PyErr_SetString :: "interp \<Rightarrow> PyExc \<Rightarrow> string \<Rightarrow> interp" where
  "PyErr_SetString s e msg = s\<lparr>err := Some (e, msg)\<rparr>"

definition PyErr_Clear :: "interp \<Rightarrow> interp" where
  "PyErr_Clear s = s\<lparr>err := None\<rparr>"

definition Py_TYPE :: "interp \<Rightarrow> addr \<Rightarrow> PyTypeObject" where
  "Py_TYPE s p = ob_type (heap s ! p)"

definition Py_SIZE :: "interp \<Rightarrow> addr \<Rightarrow> int" where
  "Py_SIZE s p = ob_size (heap s ! p)"

definition Py_SET_SIZE :: "interp \<Rightarrow> addr \<Rightarrow> int \<Rightarrow> interp" where
  "Py_SET_SIZE s p n = s\<lparr>heap := (heap s)[p := (heap s ! p)\<lparr>ob_size := n\<rparr>]\<rparr>"

definition Py_SET_TYPE :: "interp \<Rightarrow> addr \<Rightarrow> PyTypeObject \<Rightarrow> interp" where
  "Py_SET_TYPE s p t = s\<lparr>heap := (heap s)[p := (heap s ! p)\<lparr>ob_type := t\<rparr>]\<rparr>"

definition alloc :: "interp \<Rightarrow> PyObject \<Rightarrow> addr \<times> interp" where
  "alloc s ob = (length (heap s), s\<lparr>heap := heap s @ [ob]\<rparr>)"

subsection \<open>The host's type checks\<close>

text \<open>
  \<open>PyLong_Check\<close>, \<open>PyUnicode_Check\<close>, \<open>PyDict_Check\<close>, \<open>PyList_Check\<close> and
  \<open>PyTuple_Check\<close> test a flag of the type that every subclass inherits;
  \<open>PyFunction_Check\<close> compares the type with \<open>PyFunction_Type\<close> itself.
\<close>

fun long_subclass :: "PyTypeObject \<Rightarrow> bool" where
  "long_subclass PyLong_Type = True"
| "long_subclass PyBool_Type = True"
| "long_subclass PythonMonkey_BigInt = True"
| "long_subclass (HeapType b) = long_subclass b"
| "long_subclass _ = False"

fun unicode_subclass :: "PyTypeObject \<Rightarrow> bool" where
  "unicode_subclass PyUnicode_Type = True"
| "unicode_subclass (HeapType b) = unicode_subclass b"
| "unicode_subclass _ = False"

fun dict_subclass :: "PyTypeObject \<Rightarrow> bool" where
  "dict_subclass PyDict_Type = True"
| "dict_subclass (HeapType b) = dict_subclass b"
| "dict_subclass _ = False"

fun list_subclass :: "PyTypeObject \<Rightarrow> bool" where
  "list_subclass PyList_Type = True"
| "list_subclass (HeapType b) = list_subclass b"
| "list_subclass _ = False"

fun tuple_subclass :: "PyTypeObject \<Rightarrow> bool" where
  "tuple_subclass PyTuple_Type = True"
| "tuple_subclass (HeapType b) = tuple_subclass b"
| "tuple_subclass _ = False"

definition PyLong_Check :: "interp \<Rightarrow> addr \<Rightarrow> bool" where
  "PyLong_Check s p = long_subclass (Py_TYPE s p)"

definition PyUnicode_Check :: "interp \<Rightarrow> addr \<Rightarrow> bool" where
  "PyUnicode_Check s p = unicode_subclass (Py_TYPE s p)"

definition PyFunction_Check :: "interp \<Rightarrow> addr \<Rightarrow> bool" where
  "PyFunction_Check s p = (Py_TYPE s p = PyFunction_Type)"

definition PyDict_Check :: "interp \<Rightarrow> addr \<Rightarrow> bool" where
  "PyDict_Check s p = dict_subclass (Py_TYPE s p)"

definition PyList_Check :: "interp \<Rightarrow> addr \<Rightarrow> bool" where
  "PyList_Check s p = list_subclass (Py_TYPE s p)"

definition PyTuple_Check :: "interp \<Rightarrow> addr \<Rightarrow> bool" where
  "PyTuple_Check s p = tuple_subclass (Py_TYPE s p)"

section \<open>Runtime B: the engine values the marshaller touches\<close>

text \<open>
  A big integer of the engine: the flags word of its header (bit 3 is the sign), the
  digit count stored next to it, and the digit storage, least significant digit first.
  Whether the storage is inline or behind a pointer does not change what is read.
\<close>

record JSBigInt =
  flagsField :: "32 word"
  lengthField :: "32 word"
  digitStorage :: "64 word list"

datatype ProxyFamily =
    PyDictProxyHandler_family
  | PyListProxyHandler_family
  | PyObjectProxyHandler_family
  | Foreign_family

datatype ESClass =
    ESClass_Object | ESClass_Array | ESClass_Number | ESClass_String | ESClass_Boolean
  | ESClass_RegExp | ESClass_ArrayBuffer | ESClass_SharedArrayBuffer | ESClass_Date
  | ESClass_Set | ESClass_Map | ESClass_Promise | ESClass_MapIterator
  | ESClass_SetIterator | ESClass_Arguments | ESClass_Error | ESClass_BigInt
  | ESClass_Function | ESClass_Other

type_synonym jsdouble = "64 word"

text \<open>
  What the dispatcher asks the engine about an object: whether its class is a proxy
  class, the family of its handler and the host object the handler holds, its built-in
  class, whether it is a bound function, whether it is the native function
  \<open>callPyFunc\<close> and the pointer in its reserved slot 0, the primitive a box holds, and
  whether the buffer wrapper supports it.
\<close>

record JSObject =
  isProxyObject :: bool
  handlerFamily :: ProxyFamily
  handlerPyObject :: addr
  builtinClass :: ESClass
  isBoundFunction :: bool
  isNativeCallPyFunc :: bool
  nativeReserved0 :: addr
  boxedBoolean :: bool
  boxedNumber :: jsdouble
  boxedBigInt :: JSBigInt
  boxedString :: string
  isSupportedJsTypes :: bool

datatype JSValue =
    UndefinedV
  | NullV
  | BooleanV bool
  | NumberV jsdouble
  | StringV string
  | SymbolV string
  | BigIntV JSBigInt
  | ObjectV JSObject
  | MagicV
  | PrivateGCThingV

section \<open>Wrappers\<close>

text \<open>
  The wrapper classes. A wrapper built from a host object holds its address. The
  constructors that build a host object from an engine value are outside these files,
  apart from the big-integer one: such a wrapper is written as the class with the engine
  value it was built from.
\<close>

datatype PyType =
    PyType_obj addr
  | IntType addr
  | StrType addr
  | FuncType addr
  | DictType addr
  | ListType addr
  | TupleType addr
  | NoneType
  | NullType
  | BoolType bool
  | FloatType jsdouble
  | StrType_JS string
  | DateType_JS JSObject
  | PromiseType_JS JSObject
  | ExceptionType_JS JSObject
  | FuncType_JS JSValue
  | ListType_JS JSObject
  | BufferType_JS JSObject
  | DictType_JS JSValue

fun getPyObject :: "PyType \<Rightarrow> addr option" where
  "getPyObject (PyType_obj p) = Some p"
| "getPyObject (IntType p) = Some p"
| "getPyObject (StrType p) = Some p"
| "getPyObject (FuncType p) = Some p"
| "getPyObject (DictType p) = Some p"
| "getPyObject (ListType p) = Some p"
| "getPyObject (TupleType p) = Some p"
| "getPyObject _ = None"

section \<open>The A-to-B dispatcher\<close>

text \<open>\<open>pyTypeFactory(PyObject *)\<close>: \<open>None\<close> is the null result.\<close>

definition pyTypeFactory_py :: "interp \<Rightarrow> addr \<Rightarrow> PyType option \<times> interp" where
  "pyTypeFactory_py s object =
     (if PyLong_Check s object then (Some (IntType object), s)
      else if PyUnicode_Check s object then (Some (StrType object), s)
      else if PyFunction_Check s object then (Some (FuncType object), s)
      else if PyDict_Check s object then (Some (DictType object), s)
      else if PyList_Check s object then (Some (ListType object), s)
      else if PyTuple_Check s object then (Some (TupleType object), s)
      else (None, s))"

section \<open>The big-integer codec: definitions\<close>

subsection \<open>Digits\<close>

definition SIGN_BIT_MASK :: "32 word" where
  "SIGN_BIT_MASK = 8"

definition JS_DIGIT_BIT :: nat where
  "JS_DIGIT_BIT = 64"

definition JS_DIGIT_BYTE :: nat where
  "JS_DIGIT_BYTE = 8"

definition PyLong_SHIFT :: nat where
  "PyLong_SHIFT = 30"

definition SIZE_MAX :: nat where
  "SIZE_MAX = 2 ^ 64 - 1"

definition HEX_CHAR_LOOKUP_TABLE :: string where
  "HEX_CHAR_LOOKUP_TABLE = ''0123456789ABCDEF''"

text \<open>The digits of \<open>n\<close> in base \<open>b\<close>, least significant first, none for \<open>0\<close>.\<close>

function digits_of :: "nat \<Rightarrow> nat \<Rightarrow> nat list" where
  "digits_of b n = (if n = 0 \<or> b < 2 then [] else n mod b # digits_of b (n div b))"
  by pat_completeness auto
termination
  by (relation "measure snd") auto

declare digits_of.simps [simp del]

text \<open>Exactly \<open>k\<close> digits of \<open>n\<close> in base \<open>b\<close>, least significant first.\<close>

primrec digits_pad :: "nat \<Rightarrow> nat \<Rightarrow> nat \<Rightarrow> nat list" where
  "digits_pad b 0 n = []"
| "digits_pad b (Suc k) n = n mod b # digits_pad b k (n div b)"

primrec from_digits :: "nat \<Rightarrow> nat list \<Rightarrow> nat" where
  "from_digits b [] = 0"
| "from_digits b (d # ds) = d + b * from_digits b ds"

text \<open>The magnitude and the value an integer object stands for.\<close>

definition py_magnitude :: "PyObject \<Rightarrow> nat" where
  "py_magnitude ob = from_digits (2 ^ PyLong_SHIFT) (take (nat \<bar>ob_size ob\<bar>) (ob_digit ob))"

definition py_value :: "PyObject \<Rightarrow> int" where
  "py_value ob = sgn (ob_size ob) * int (py_magnitude ob)"

text \<open>The object the host builds for the integer \<open>n\<close>, of type \<open>t\<close>.\<close>

definition PyLong_of_int :: "PyTypeObject \<Rightarrow> int \<Rightarrow> PyObject" where
  "PyLong_of_int t n =
     \<lparr>ob_type = t,
      ob_size = sgn n * int (length (digits_of (2 ^ PyLong_SHIFT) (nat \<bar>n\<bar>))),
      ob_digit = digits_of (2 ^ PyLong_SHIFT) (nat \<bar>n\<bar>)\<rparr>"

subsection \<open>Host primitives the codec calls\<close>

text \<open>
  The host's integer primitives, by what they return and what they do to the error
  indicator. \<open>PyLong_NumBits\<close> is \<open>_PyLong_NumBits\<close>, \<open>PyLong_AsByteArray\<close> is
  \<open>_PyLong_AsByteArray\<close> called big-endian and unsigned, \<open>PyLong_FromByteArray\<close> is
  \<open>_PyLong_FromByteArray\<close> called little-endian and unsigned, \<open>PyLong_New\<close> is
  \<open>_PyLong_New\<close>.
\<close>

fun bits_in_digit :: "nat \<Rightarrow> nat" where
  "bits_in_digit d = (if d = 0 then 0 else Suc (bits_in_digit (d div 2)))"

declare bits_in_digit.simps [simp del]

text \<open>
  The number of bits of the magnitude, read from the digit count and the most
  significant digit; \<open>(size_t)-1\<close> with OverflowError set when it does not fit.
\<close>

definition PyLong_NumBits :: "interp \<Rightarrow> addr \<Rightarrow> 64 word \<times> interp" where
  "PyLong_NumBits s p =
     (let ob = heap s ! p;
          ndigits = nat \<bar>ob_size ob\<bar>;
          overflow = (- 1, PyErr_SetString s PyExc_OverflowError
                        ''int has too many bits to express in a platform size_t'')
      in if ndigits > 0 then
           (let msd = ob_digit ob ! (ndigits - 1) in
            if ndigits - 1 > SIZE_MAX div PyLong_SHIFT then overflow
            else
              (let result = (ndigits - 1) * PyLong_SHIFT;
                   msd_bits = bits_in_digit msd
               in if SIZE_MAX - msd_bits < result then overflow
                  else (of_nat (result + msd_bits), s)))
         else (0, s))"

text \<open>
  The value as an unsigned 64-bit integer; \<open>(unsigned long long)-1\<close> with
  OverflowError set for a negative integer or one that does not fit.
\<close>

definition PyLong_AsUnsignedLongLong :: "interp \<Rightarrow> addr \<Rightarrow> 64 word \<times> interp" where
  "PyLong_AsUnsignedLongLong s p =
     (let ob = heap s ! p in
      if ob_size ob < 0 then
        (- 1, PyErr_SetString s PyExc_OverflowError ''can't convert negative int to unsigned'')
      else if py_magnitude ob \<ge> 2 ^ 64 then
        (- 1, PyErr_SetString s PyExc_OverflowError ''int too big to convert'')
      else (of_nat (py_magnitude ob), s))"

text \<open>
  The magnitude as \<open>n\<close> bytes, most significant first. A negative integer is refused
  before anything is written (the buffer is then shown zeroed; the codec never exports
  a negative integer, see \<open>toJsBigInt_force\<close>); one that does not fit leaves its low
  \<open>n\<close> bytes. Both set OverflowError.
\<close>

definition PyLong_AsByteArray :: "interp \<Rightarrow> addr \<Rightarrow> nat \<Rightarrow> 8 word list \<times> interp" where
  "PyLong_AsByteArray s p n =
     (let ob = heap s ! p in
      if ob_size ob < 0 then
        (replicate n 0,
         PyErr_SetString s PyExc_OverflowError ''can't convert negative int to unsigned'')
      else if py_magnitude ob \<ge> 256 ^ n then
        (map of_nat (rev (digits_pad 256 n (py_magnitude ob))),
         PyErr_SetString s PyExc_OverflowError ''int too big to convert'')
      else (map of_nat (rev (digits_pad 256 n (py_magnitude ob))), s))"

text \<open>A new integer object with \<open>ndigits\<close> digits.\<close>

definition PyLong_New :: "interp \<Rightarrow> nat \<Rightarrow> addr \<times> interp" where
  "PyLong_New s ndigits =
     alloc s \<lparr>ob_type = PyLong_Type, ob_size = int ndigits, ob_digit = replicate ndigits 0\<rparr>"

definition NSMALLPOSINTS :: nat where
  "NSMALLPOSINTS = 257"

text \<open>
  The integer whose magnitude is the first \<open>n\<close> of the bytes, least significant first:
  for \<open>n = 0\<close> the shared small integer \<open>0\<close>; for a magnitude below
  \<open>NSMALLPOSINTS\<close> the shared small integer of that value, with nothing allocated
  (the host, from version 3.11 on, hands the normalised result to its small-integer
  cache before returning it); otherwise a new normalised object.
\<close>

definition PyLong_FromByteArray :: "interp \<Rightarrow> 8 word list \<Rightarrow> nat \<Rightarrow> addr \<times> interp" where
  "PyLong_FromByteArray s bytes n =
     (if n = 0 then (small_int_zero s, s)
      else
        (let v = from_digits 256 (map unat (take n bytes)) in
         if v < NSMALLPOSINTS then (small_int_zero s + v, s)
         else alloc s (PyLong_of_int PyLong_Type (int v))))"

subsection \<open>Engine primitives the codec calls\<close>

definition BigIntIsNegative :: "JSBigInt \<Rightarrow> bool" where
  "BigIntIsNegative b = (flagsField b AND SIGN_BIT_MASK \<noteq> 0)"

text \<open>
  The non-negative big integer of magnitude \<open>m\<close>: no leading zero digit, no digit at
  all for zero.
\<close>

definition BigInt_of_nat :: "nat \<Rightarrow> JSBigInt" where
  "BigInt_of_nat m =
     \<lparr>flagsField = 0,
      lengthField = of_nat (length (digits_of (2 ^ JS_DIGIT_BIT) m)),
      digitStorage = map of_nat (digits_of (2 ^ JS_DIGIT_BIT) m)\<rparr>"

definition BigIntFromUint64 :: "64 word \<Rightarrow> JSBigInt" where
  "BigIntFromUint64 n =
     (if n = 0 then \<lparr>flagsField = 0, lengthField = 0, digitStorage = []\<rparr>
      else \<lparr>flagsField = 0, lengthField = 1, digitStorage = [n]\<rparr>)"

definition digit_value :: "char \<Rightarrow> nat option" where
  "digit_value c =
     (let n = (of_char c :: nat) in
      if 48 \<le> n \<and> n \<le> 57 then Some (n - 48)
      else if 97 \<le> n \<and> n \<le> 122 then Some (n - 87)
      else if 65 \<le> n \<and> n \<le> 90 then Some (n - 55)
      else None)"

fun parse_digits :: "nat \<Rightarrow> nat \<Rightarrow> string \<Rightarrow> nat option" where
  "parse_digits radix acc [] = Some acc"
| "parse_digits radix acc (c # cs) =
     (case digit_value c of
        None \<Rightarrow> None
      | Some d \<Rightarrow> if d < radix then parse_digits radix (acc * radix + d) cs else None)"

text \<open>
  \<open>JS::SimpleStringToBigInt\<close> on a span of digits with no sign: \<open>None\<close> (a null
  result) for an empty span, for a character that is no digit of the radix, and for a
  magnitude of more than \<open>MaxDigitLength\<close> digits, which the engine refuses: its
  big integers have at most \<open>MaxBitLength\<close> bits.
\<close>

definition MaxBitLength :: nat where
  "MaxBitLength = 1024 * 1024"

definition MaxDigitLength :: nat where
  "MaxDigitLength = MaxBitLength div JS_DIGIT_BIT"

definition SimpleStringToBigInt :: "string \<Rightarrow> nat \<Rightarrow> JSBigInt option" where
  "SimpleStringToBigInt chars radix =
     (if chars = [] then None
      else
        (case parse_digits radix 0 chars of
           None \<Rightarrow> None
         | Some m \<Rightarrow>
             if MaxDigitLength < length (digits_of (2 ^ JS_DIGIT_BIT) m) then None
             else Some (BigInt_of_nat m)))"

subsection \<open>Decoding: \<open>IntType::IntType(JSContext *, JS::BigInt *)\<close>\<close>

text \<open>
  The digit storage as the bytes a little-endian host sees; the big-endian branch is
  compiled out on such a host.
\<close>

definition digit_bytes :: "64 word list \<Rightarrow> 8 word list" where
  "digit_bytes ds = concat (map (\<lambda>w. map of_nat (digits_pad 256 JS_DIGIT_BYTE (unat w))) ds)"

definition IntType_BigInt :: "interp \<Rightarrow> JSBigInt \<Rightarrow> PyType \<times> interp" where
  "IntType_BigInt s bigint =
     (let isNegative = BigIntIsNegative bigint;
          jsDigitCount = lengthField bigint;
          bytes = digit_bytes (digitStorage bigint);
          (pyObject, s1) =
             (if jsDigitCount = 0 then PyLong_New s 0
              else PyLong_FromByteArray s bytes (unat jsDigitCount * JS_DIGIT_BYTE));
          s2 = (if isNegative then Py_SET_SIZE s1 pyObject (- Py_SIZE s1 pyObject) else s1);
          s3 = Py_SET_TYPE s2 pyObject PythonMonkey_BigInt
      in (IntType pyObject, s3))"

subsection \<open>Encoding: \<open>IntType::toJsBigInt\<close>\<close>

text \<open>The digit count, narrowed to the 32 bits of \<open>uint32_t jsDigitCount\<close>.\<close>

definition jsDigitCount_of :: "64 word \<Rightarrow> 32 word" where
  "jsDigitCount_of bitCount =
     ucast (if bitCount = 0 then 1 else (bitCount - 1) div of_nat JS_DIGIT_BIT + 1)"

text \<open>
  The digit count in the spec's words: the ceiling of the bit length over the digit
  width, with a minimum of one digit.
\<close>

definition digit_count_spec :: "nat \<Rightarrow> nat" where
  "digit_count_spec bits = max 1 ((bits + 63) div 64)"

text \<open>Forcing the stored length positive before the export.\<close>

definition toJsBigInt_force :: "interp \<Rightarrow> addr \<Rightarrow> interp" where
  "toJsBigInt_force s pyObject =
     (let pyDigitCount = Py_SIZE s pyObject;
          isNegative = pyDigitCount < 0
      in if isNegative then Py_SET_SIZE s pyObject (- pyDigitCount) else s)"

text \<open>The loop that writes two hexadecimal characters per byte.\<close>

primrec bytes_to_hex :: "8 word list \<Rightarrow> string" where
  "bytes_to_hex [] = []"
| "bytes_to_hex (b # bs) =
     HEX_CHAR_LOOKUP_TABLE ! unat (drop_bit 4 b AND 0xf)
       # HEX_CHAR_LOOKUP_TABLE ! unat (b AND 0xf)
       # bytes_to_hex bs"

text \<open>
  The fast path and the path through the hexadecimal string. \<open>malloc_ok n\<close> says
  that \<open>PyMem_Malloc\<close> hands out a buffer of \<open>n\<close> bytes; when it hands out null,
  the export writes through the null pointer.
\<close>

definition toJsBigInt_build ::
  "(nat \<Rightarrow> bool) \<Rightarrow> interp \<Rightarrow> addr \<Rightarrow> 32 word \<Rightarrow> (JSBigInt option \<times> interp) outcome" where
  "toJsBigInt_build malloc_ok s pyObject jsDigitCount =
     (if jsDigitCount \<le> 1 then
        (let (n, s') = PyLong_AsUnsignedLongLong s pyObject
         in Returns (Some (BigIntFromUint64 n), s'))
      else
        (let byteCount = (of_nat JS_DIGIT_BYTE * ucast jsDigitCount :: 64 word) in
         if \<not> malloc_ok (unat byteCount) then Crash
         else
           (let (bytes, s') = PyLong_AsByteArray s pyObject (unat byteCount);
                chars = bytes_to_hex bytes
            in Returns (SimpleStringToBigInt chars 16, s'))))"

text \<open>
  \<open>None\<close> is the null result. For a negative source the stored length is restored
  and then the sign is written into the header of the big integer, with no test that
  the engine handed one back: on a null result that write goes through the null pointer.
\<close>

definition toJsBigInt ::
  "(nat \<Rightarrow> bool) \<Rightarrow> interp \<Rightarrow> addr \<Rightarrow> (JSBigInt option \<times> interp) outcome" where
  "toJsBigInt malloc_ok s pyObject =
     (let (bitCount, s0) = PyLong_NumBits s pyObject in
      if bitCount = - 1 \<and> PyErr_Occurred s0 then Returns (None, s0)
      else
        (let jsDigitCount = jsDigitCount_of bitCount;
             pyDigitCount = Py_SIZE s0 pyObject;
             isNegative = pyDigitCount < 0;
             s1 = toJsBigInt_force s0 pyObject
         in case toJsBigInt_build malloc_ok s1 pyObject jsDigitCount of
              Crash \<Rightarrow> Crash
            | Returns (bigint, s2) \<Rightarrow>
                if isNegative then
                  (case bigint of
                     None \<Rightarrow> Crash
                   | Some b \<Rightarrow>
                       Returns (Some (b\<lparr>flagsField := flagsField b OR SIGN_BIT_MASK\<rparr>),
                                Py_SET_SIZE s2 pyObject pyDigitCount))
                else Returns (bigint, s2)))"

text \<open>Encoding the integer at an address and decoding the result.\<close>

definition roundtrip ::
  "(nat \<Rightarrow> bool) \<Rightarrow> interp \<Rightarrow> addr \<Rightarrow> (PyType option \<times> interp) outcome" where
  "roundtrip malloc_ok s pyObject =
     (case toJsBigInt malloc_ok s pyObject of
        Crash \<Rightarrow> Crash
      | Returns (None, s1) \<Rightarrow> Returns (None, s1)
      | Returns (Some bigint, s1) \<Rightarrow>
          (let (w, s2) = IntType_BigInt s1 bigint in Returns (Some w, s2)))"

text \<open>
  A state that holds the interpreter's small integers and nothing else: the integers
  from -5 to 256 at the addresses 0 to 261, so that the shared 0 is at address 5.
\<close>

definition small_ints_state :: interp where
  "small_ints_state =
     \<lparr>heap = map (\<lambda>i. PyLong_of_int PyLong_Type (int i - 5)) [0..<262],
      small_int_zero = 5, err = None\<rparr>"

section \<open>The B-to-A dispatcher\<close>

text \<open>
  The engine's string conversion, \<open>JS::ToString\<close>: for a symbol it reports an error
  and yields null, here \<open>None\<close>, since a symbol has no conversion to string; the text
  it yields for the other values is the parameter \<open>conv\<close>.
\<close>

definition JS_ToString :: "(JSValue \<Rightarrow> string) \<Rightarrow> JSValue \<Rightarrow> string option" where
  "JS_ToString conv rval = (case rval of SymbolV d \<Rightarrow> None | _ \<Rightarrow> Some (conv rval))"

text \<open>
  \<open>pyTypeFactory(JSContext *, JS::Rooted<JSObject *> *, JS::HandleValue)\<close>.
  \<open>None\<close> is the null result. The tail of the function passes what the string
  conversion yields to the UTF-8 encoder untested, so a null string is read through. What
  the function prints is not part of the model.
\<close>

definition pyTypeFactory_object :: "interp \<Rightarrow> JSValue \<Rightarrow> JSObject \<Rightarrow> PyType option \<times> interp" where
  "pyTypeFactory_object s rval obj =
     (if isProxyObject obj \<and> handlerFamily obj = PyDictProxyHandler_family then
        (Some (DictType (handlerPyObject obj)), s)
      else if isProxyObject obj \<and> handlerFamily obj = PyListProxyHandler_family then
        (Some (ListType (handlerPyObject obj)), s)
      else if isProxyObject obj \<and> handlerFamily obj = PyObjectProxyHandler_family then
        (Some (PyType_obj (handlerPyObject obj)), s)
      else
        (let cls = (if isBoundFunction obj then ESClass_Function else builtinClass obj) in
         case cls of
           ESClass_Boolean \<Rightarrow> (Some (BoolType (boxedBoolean obj)), s)
         | ESClass_Date \<Rightarrow> (Some (DateType_JS obj), s)
         | ESClass_Promise \<Rightarrow> (Some (PromiseType_JS obj), s)
         | ESClass_Error \<Rightarrow> (Some (ExceptionType_JS obj), s)
         | ESClass_Function \<Rightarrow>
             (if isNativeCallPyFunc obj then (Some (FuncType (nativeReserved0 obj)), s)
              else (Some (FuncType_JS rval), s))
         | ESClass_Number \<Rightarrow> (Some (FloatType (boxedNumber obj)), s)
         | ESClass_BigInt \<Rightarrow>
             (let (w, s') = IntType_BigInt s (boxedBigInt obj) in (Some w, s'))
         | ESClass_String \<Rightarrow> (Some (StrType_JS (boxedString obj)), s)
         | ESClass_Array \<Rightarrow> (Some (ListType_JS obj), s)
         | _ \<Rightarrow>
             (if isSupportedJsTypes obj then (Some (BufferType_JS obj), s)
              else (Some (DictType_JS rval), s))))"

definition pyTypeFactory_error ::
  "(JSValue \<Rightarrow> string) \<Rightarrow> interp \<Rightarrow> JSValue \<Rightarrow> (PyType option \<times> interp) outcome" where
  "pyTypeFactory_error conv s rval =
     (case JS_ToString conv rval of
        None \<Rightarrow> Crash
      | Some str \<Rightarrow>
          (let errorString = ''pythonmonkey cannot yet convert Javascript value of: '' @ str
           in Returns (None, PyErr_SetString s PyExc_TypeError errorString)))"

fun pyTypeFactory ::
  "(JSValue \<Rightarrow> string) \<Rightarrow> interp \<Rightarrow> JSValue \<Rightarrow> (PyType option \<times> interp) outcome" where
  "pyTypeFactory conv s UndefinedV = Returns (Some NoneType, s)"
| "pyTypeFactory conv s NullV = Returns (Some NullType, s)"
| "pyTypeFactory conv s (BooleanV b) = Returns (Some (BoolType b), s)"
| "pyTypeFactory conv s (NumberV d) = Returns (Some (FloatType d), s)"
| "pyTypeFactory conv s (StringV str) = Returns (Some (StrType_JS str), s)"
| "pyTypeFactory conv s (SymbolV d) = pyTypeFactory_error conv s (SymbolV d)"
| "pyTypeFactory conv s (BigIntV b) =
     (let (w, s') = IntType_BigInt s b in Returns (Some w, s'))"
| "pyTypeFactory conv s (ObjectV obj) = Returns (pyTypeFactory_object s (ObjectV obj) obj)"
| "pyTypeFactory conv s MagicV = pyTypeFactory_error conv s MagicV"
| "pyTypeFactory conv s PrivateGCThingV = pyTypeFactory_error conv s PrivateGCThingV"

definition pyTypeFactorySafe ::
  "(JSValue \<Rightarrow> string) \<Rightarrow> interp \<Rightarrow> JSValue \<Rightarrow> (PyType option \<times> interp) outcome" where
  "pyTypeFactorySafe conv s rval =
     (case pyTypeFactory conv s rval of
        Crash \<Rightarrow> Crash
      | Returns (v, s') \<Rightarrow>
          if PyErr_Occurred s' then Returns (Some NullType, PyErr_Clear s')
          else Returns (v, s'))"

section \<open>The dispatchers\<close>

subsection \<open>Facts about the B-to-A dispatcher\<close>

lemma err_IntType_BigInt: "err (snd (IntType_BigInt s b)) = err s"
  by (simp add: IntType_BigInt_def PyLong_New_def PyLong_FromByteArray_def alloc_def
      Py_SET_SIZE_def Py_SET_TYPE_def Let_def split_def)

lemma pyTypeFactory_object_Some: "fst (pyTypeFactory_object s rval obj) \<noteq> None"
  by (simp add: pyTypeFactory_object_def Let_def split_def split: ESClass.split)

lemma err_pyTypeFactory_object: "err (snd (pyTypeFactory_object s rval obj)) = err s"
  by (simp add: pyTypeFactory_object_def Let_def split_def err_IntType_BigInt
      split: ESClass.split)

lemma pyTypeFactory_returns:
  assumes "\<And>d. rval \<noteq> SymbolV d"
  shows "\<exists>v s'. pyTypeFactory conv s rval = Returns (v, s')"
  using assms
  by (cases rval) (auto simp: pyTypeFactory_error_def JS_ToString_def split_def Let_def)

lemma pyTypeFactory_None_err:
  assumes "pyTypeFactory conv s rval = Returns (None, s')"
  shows "PyErr_Occurred s'"
proof (cases rval)
  case (ObjectV obj)
  then show ?thesis
    using assms pyTypeFactory_object_Some [of s rval obj]
    by (cases "pyTypeFactory_object s rval obj") auto
qed (use assms in \<open>auto simp: pyTypeFactory_error_def JS_ToString_def PyErr_Occurred_def
      PyErr_SetString_def split_def Let_def\<close>)

lemma pyTypeFactory_Some_err:
  assumes "pyTypeFactory conv s rval = Returns (Some w, s')"
  shows "err s' = err s"
proof (cases rval)
  case (ObjectV obj)
  then show ?thesis
    using assms err_pyTypeFactory_object [of s rval obj]
    by (cases "pyTypeFactory_object s rval obj") auto
next
  case (BigIntV b)
  then show ?thesis
    using assms err_IntType_BigInt [of s b]
    by (cases "IntType_BigInt s b") auto
qed (use assms in \<open>auto simp: pyTypeFactory_error_def JS_ToString_def split_def Let_def\<close>)

subsection \<open>Own proxies are unwrapped\<close>

text \<open>
  C2. For an engine object whose class is a proxy class and whose handler family is the
  mapping-proxy, sequence-proxy or generic-object-proxy family, the B-to-A dispatcher
  returns a wrapper that holds the very address the handler holds, and leaves the host
  state as it was: no object is built.
\<close>

theorem pyTypeFactory_own_proxy:
  assumes "isProxyObject obj"
    and "handlerFamily obj = PyDictProxyHandler_family
         \<or> handlerFamily obj = PyListProxyHandler_family
         \<or> handlerFamily obj = PyObjectProxyHandler_family"
  shows "\<exists>w. pyTypeFactory conv s (ObjectV obj) = Returns (Some w, s)
             \<and> getPyObject w = Some (handlerPyObject obj)"
  using assms by (auto simp: pyTypeFactory_object_def)

theorem pyTypeFactory_own_proxy_witness:
  "\<exists>w. pyTypeFactory (\<lambda>v. ''[object Object]'')
          \<lparr>heap = [\<lparr>ob_type = PyDict_Type, ob_size = 0, ob_digit = []\<rparr>],
           small_int_zero = 0, err = None\<rparr>
          (ObjectV \<lparr>isProxyObject = True, handlerFamily = PyDictProxyHandler_family,
                    handlerPyObject = 0, builtinClass = ESClass_Other,
                    isBoundFunction = False, isNativeCallPyFunc = False,
                    nativeReserved0 = 0, boxedBoolean = False, boxedNumber = 0,
                    boxedBigInt = \<lparr>flagsField = 0, lengthField = 0, digitStorage = []\<rparr>,
                    boxedString = [], isSupportedJsTypes = False\<rparr>)
        = Returns (Some w, \<lparr>heap = [\<lparr>ob_type = PyDict_Type, ob_size = 0, ob_digit = []\<rparr>],
                    small_int_zero = 0, err = None\<rparr>)
        \<and> getPyObject w = Some 0"
proof -
  let ?obj = "\<lparr>isProxyObject = True, handlerFamily = PyDictProxyHandler_family,
               handlerPyObject = 0, builtinClass = ESClass_Other,
               isBoundFunction = False, isNativeCallPyFunc = False,
               nativeReserved0 = 0, boxedBoolean = False, boxedNumber = 0,
               boxedBigInt = \<lparr>flagsField = 0, lengthField = 0, digitStorage = []\<rparr>,
               boxedString = [], isSupportedJsTypes = False\<rparr>"
  have p: "isProxyObject ?obj" by simp
  have f: "handlerFamily ?obj = PyDictProxyHandler_family
           \<or> handlerFamily ?obj = PyListProxyHandler_family
           \<or> handlerFamily ?obj = PyObjectProxyHandler_family" by simp
  have h: "handlerPyObject ?obj = 0" by simp
  show ?thesis
    using pyTypeFactory_own_proxy [OF p f] unfolding h .
qed

subsection \<open>Values no branch classifies\<close>

text \<open>
  A magic value and a private cell reach the tail of the dispatcher and get what the
  tail is written for: the null result, and a TypeError whose message is the fixed prefix
  followed by the engine's string conversion of the value.
\<close>

lemma pyTypeFactory_magic_or_private:
  assumes "rval = MagicV \<or> rval = PrivateGCThingV"
  shows "pyTypeFactory conv s rval
         = Returns (None, PyErr_SetString s PyExc_TypeError
              (''pythonmonkey cannot yet convert Javascript value of: '' @ conv rval))"
  using assms by (auto simp: pyTypeFactory_error_def JS_ToString_def)

text \<open>
  C6 fails for its own example, a symbol. A symbol reaches the same tail, the string
  conversion yields null for it, and the tail reads through that null string: the call
  stops the process where the claim has it return the null result with a TypeError set.
\<close>

theorem pyTypeFactory_symbol_crash:
  "JS_ToString conv (SymbolV d) = None \<and> pyTypeFactory conv s (SymbolV d) = Crash"
  by (simp add: pyTypeFactory_error_def JS_ToString_def)

subsection \<open>The safe entry point\<close>

text \<open>
  For every value but a symbol the safe entry point returns, with a wrapper and with no
  error pending; and when the dispatcher returns the null result, the safe entry point
  returns the Null wrapper with the error cleared.
\<close>

lemma pyTypeFactorySafe_not_symbol:
  assumes "\<And>d. rval \<noteq> SymbolV d"
  shows "\<exists>w s'. pyTypeFactorySafe conv s rval = Returns (Some w, s') \<and> \<not> PyErr_Occurred s'"
proof -
  obtain v s1 where r: "pyTypeFactory conv s rval = Returns (v, s1)"
    using pyTypeFactory_returns [OF assms] by blast
  show ?thesis
  proof (cases "PyErr_Occurred s1")
    case True
    then show ?thesis
      by (simp add: pyTypeFactorySafe_def r PyErr_Clear_def PyErr_Occurred_def)
  next
    case False
    then have "v \<noteq> None" using pyTypeFactory_None_err [of conv s rval s1] r by auto
    then obtain w where "v = Some w" by auto
    then show ?thesis using False by (simp add: pyTypeFactorySafe_def r)
  qed
qed

lemma pyTypeFactorySafe_null:
  assumes "pyTypeFactory conv s rval = Returns (None, s')"
  shows "pyTypeFactorySafe conv s rval = Returns (Some NullType, PyErr_Clear s')"
  using pyTypeFactory_None_err [OF assms] by (simp add: pyTypeFactorySafe_def assms)

text \<open>
  C3 fails for a symbol: the dispatcher stops the process before it returns, so the safe
  entry point has nothing to test or clear and returns no Null wrapper. This is the
  defect of C6, seen through the safe entry point.
\<close>

theorem pyTypeFactorySafe_symbol_crash:
  "pyTypeFactorySafe conv s (SymbolV d) = Crash"
  by (simp add: pyTypeFactorySafe_def pyTypeFactory_error_def JS_ToString_def)

text \<open>
  C10. Whenever the dispatcher returns, the safe entry point decides by the error
  indicator of the state the dispatcher leaves, and by nothing else: with an error
  pending there it returns the Null wrapper and clears the error, otherwise it returns
  what the dispatcher returned, in the state the dispatcher left. A dispatcher call that
  returns a wrapper leaves the indicator as it found it. So with an error pending on
  entry a converted wrapper is dropped for the Null wrapper and the error is cleared, and
  with no error pending on entry the converted wrapper itself comes back.
\<close>

theorem pyTypeFactorySafe_decides_by_indicator:
  assumes "pyTypeFactory conv s rval = Returns (v, s')"
  shows "pyTypeFactorySafe conv s rval
           = Returns (if PyErr_Occurred s' then (Some NullType, PyErr_Clear s') else (v, s'))
       \<and> (v \<noteq> None \<longrightarrow> err s' = err s)
       \<and> (v \<noteq> None \<and> PyErr_Occurred s \<longrightarrow>
            pyTypeFactorySafe conv s rval = Returns (Some NullType, PyErr_Clear s'))
       \<and> (v \<noteq> None \<and> \<not> PyErr_Occurred s \<longrightarrow>
            pyTypeFactorySafe conv s rval = Returns (v, s'))"
proof -
  have d: "pyTypeFactorySafe conv s rval
           = Returns (if PyErr_Occurred s' then (Some NullType, PyErr_Clear s') else (v, s'))"
    by (simp add: pyTypeFactorySafe_def assms)
  have e: "v \<noteq> None \<Longrightarrow> err s' = err s"
    using pyTypeFactory_Some_err [of conv s rval _ s'] assms by auto
  show ?thesis
    using d e by (auto simp: PyErr_Occurred_def)
qed

theorem pyTypeFactorySafe_decides_by_indicator_witness:
  "pyTypeFactory (\<lambda>v. ''true'')
     \<lparr>heap = [], small_int_zero = 0, err = Some (PyExc_TypeError, ''earlier'')\<rparr>
     (BooleanV True)
     = Returns (Some (BoolType True),
          \<lparr>heap = [], small_int_zero = 0, err = Some (PyExc_TypeError, ''earlier'')\<rparr>)
   \<and> pyTypeFactorySafe (\<lambda>v. ''true'')
        \<lparr>heap = [], small_int_zero = 0, err = Some (PyExc_TypeError, ''earlier'')\<rparr>
        (BooleanV True)
       = Returns (Some NullType, \<lparr>heap = [], small_int_zero = 0, err = None\<rparr>)
   \<and> pyTypeFactory (\<lambda>v. ''true'') \<lparr>heap = [], small_int_zero = 0, err = None\<rparr>
        (BooleanV True)
       = Returns (Some (BoolType True), \<lparr>heap = [], small_int_zero = 0, err = None\<rparr>)
   \<and> pyTypeFactorySafe (\<lambda>v. ''true'') \<lparr>heap = [], small_int_zero = 0, err = None\<rparr>
        (BooleanV True)
       = Returns (Some (BoolType True), \<lparr>heap = [], small_int_zero = 0, err = None\<rparr>)"
proof -
  let ?e = "\<lparr>heap = [], small_int_zero = 0, err = Some (PyExc_TypeError, ''earlier'')\<rparr>"
  let ?n = "\<lparr>heap = [], small_int_zero = 0, err = None\<rparr>"
  let ?T = "\<lambda>v::JSValue. ''true''"
  have a: "pyTypeFactory ?T ?e (BooleanV True) = Returns (Some (BoolType True), ?e)" by simp
  have b: "pyTypeFactory ?T ?n (BooleanV True) = Returns (Some (BoolType True), ?n)" by simp
  have pe: "PyErr_Occurred ?e" by (simp add: PyErr_Occurred_def)
  have pn: "\<not> PyErr_Occurred ?n" by (simp add: PyErr_Occurred_def)
  have c: "PyErr_Clear ?e = ?n" by (simp add: PyErr_Clear_def)
  have "pyTypeFactorySafe ?T ?e (BooleanV True) = Returns (Some NullType, PyErr_Clear ?e)"
    using pyTypeFactorySafe_decides_by_indicator [OF a] pe by blast
  then have x: "pyTypeFactorySafe ?T ?e (BooleanV True) = Returns (Some NullType, ?n)"
    by (simp only: c)
  have y: "pyTypeFactorySafe ?T ?n (BooleanV True) = Returns (Some (BoolType True), ?n)"
    using pyTypeFactorySafe_decides_by_indicator [OF b] pn by blast
  from a x b y show ?thesis by (intro conjI)
qed

subsection \<open>The A-to-B dispatcher\<close>

text \<open>
  C7. For a host object that none of the six checks accepts, the A-to-B dispatcher
  returns the null result and leaves the state, the error indicator with it, as it was.
\<close>

theorem pyTypeFactory_py_unrecognized:
  assumes "\<not> PyLong_Check s object" and "\<not> PyUnicode_Check s object"
    and "\<not> PyFunction_Check s object" and "\<not> PyDict_Check s object"
    and "\<not> PyList_Check s object" and "\<not> PyTuple_Check s object"
  shows "pyTypeFactory_py s object = (None, s)"
  using assms by (simp add: pyTypeFactory_py_def)

theorem pyTypeFactory_py_unrecognized_witness:
  "pyTypeFactory_py
     \<lparr>heap = [\<lparr>ob_type = PyFloat_Type, ob_size = 0, ob_digit = []\<rparr>],
      small_int_zero = 0, err = None\<rparr> 0
   = (None, \<lparr>heap = [\<lparr>ob_type = PyFloat_Type, ob_size = 0, ob_digit = []\<rparr>],
             small_int_zero = 0, err = None\<rparr>)"
  by (rule pyTypeFactory_py_unrecognized)
     (simp_all add: PyLong_Check_def PyUnicode_Check_def PyFunction_Check_def
        PyDict_Check_def PyList_Check_def PyTuple_Check_def Py_TYPE_def)

text \<open>
  C9. A host boolean passes the integer check, the first of the chain, so the A-to-B
  dispatcher wraps it as an integer and leaves the state as it was.
\<close>

theorem pyTypeFactory_py_bool:
  assumes "Py_TYPE s object = PyBool_Type"
  shows "PyLong_Check s object \<and> pyTypeFactory_py s object = (Some (IntType object), s)"
  using assms by (simp add: pyTypeFactory_py_def PyLong_Check_def)

theorem pyTypeFactory_py_bool_witness:
  "pyTypeFactory_py
     \<lparr>heap = [\<lparr>ob_type = PyBool_Type, ob_size = 1, ob_digit = [1]\<rparr>],
      small_int_zero = 0, err = None\<rparr> 0
   = (Some (IntType 0),
      \<lparr>heap = [\<lparr>ob_type = PyBool_Type, ob_size = 1, ob_digit = [1]\<rparr>],
       small_int_zero = 0, err = None\<rparr>)"
proof -
  let ?s = "\<lparr>heap = [\<lparr>ob_type = PyBool_Type, ob_size = 1, ob_digit = [1]\<rparr>],
             small_int_zero = 0, err = None\<rparr>"
  have h: "Py_TYPE ?s 0 = PyBool_Type" by (simp add: Py_TYPE_def)
  from pyTypeFactory_py_bool [OF h] show ?thesis by blast
qed

section \<open>The big-integer codec\<close>

subsection \<open>Digits and bit lengths\<close>

lemma from_digits_digits_of: "2 \<le> b \<Longrightarrow> from_digits b (digits_of b n) = n"
proof (induction b n rule: digits_of.induct)
  case (1 b n)
  show ?case
  proof (cases "n = 0")
    case True
    then show ?thesis by (simp add: digits_of.simps)
  next
    case False
    with 1 have "from_digits b (digits_of b (n div b)) = n div b" by simp
    with False 1(2) show ?thesis by (simp add: digits_of.simps [of b n])
  qed
qed

lemma digits_of_0: "digits_of b 0 = []"
  by (simp add: digits_of.simps)

lemma digits_of_lt: "2 \<le> b \<Longrightarrow> d \<in> set (digits_of b n) \<Longrightarrow> d < b"
proof (induction b n rule: digits_of.induct)
  case (1 b n)
  show ?case
  proof (cases "n = 0")
    case True
    with 1(3) show ?thesis by (simp add: digits_of.simps)
  next
    case False
    with 1 show ?thesis by (auto simp: digits_of.simps [of b n])
  qed
qed

lemma digits_of_nonempty: "2 \<le> b \<Longrightarrow> 0 < n \<Longrightarrow> digits_of b n \<noteq> []"
  by (simp add: digits_of.simps [of b n])

lemma digits_of_eq_Nil: "2 \<le> b \<Longrightarrow> digits_of b n = [] \<longleftrightarrow> n = 0"
  by (simp add: digits_of.simps [of b n])

lemma last_digits_of: "2 \<le> b \<Longrightarrow> 0 < n \<Longrightarrow> 0 < last (digits_of b n)"
proof (induction b n rule: digits_of.induct)
  case (1 b n)
  show ?case
  proof (cases "n div b = 0")
    case True
    then have "n < b" using 1(2) by (simp add: div_eq_0_iff)
    then have "digits_of b n = [n]"
      using 1(2,3) True by (simp add: digits_of.simps [of b n] digits_of_0)
    then show ?thesis using 1(3) by simp
  next
    case False
    then have "0 < last (digits_of b (n div b))" using 1 by simp
    moreover have "digits_of b (n div b) \<noteq> []"
      using False 1(2) by (simp add: digits_of_eq_Nil)
    ultimately show ?thesis using 1(2,3) by (simp add: digits_of.simps [of b n])
  qed
qed

lemma length_digits_of_le: "2 \<le> b \<Longrightarrow> n < b ^ k \<Longrightarrow> length (digits_of b n) \<le> k"
proof (induction k arbitrary: n)
  case 0
  then show ?case by (simp add: digits_of_0)
next
  case (Suc k)
  show ?case
  proof (cases "n = 0")
    case True
    then show ?thesis by (simp add: digits_of_0)
  next
    case False
    have "n div b < b ^ k"
      using Suc.prems by (simp add: less_mult_imp_div_less mult.commute)
    then have "length (digits_of b (n div b)) \<le> k" using Suc by simp
    then show ?thesis using False Suc.prems(1) by (simp add: digits_of.simps [of b n])
  qed
qed

lemma length_digits_pad: "length (digits_pad b k n) = k"
  by (induction k arbitrary: n) auto

lemma from_digits_pad: "from_digits b (digits_pad b k n) = n mod b ^ k"
proof (induction k arbitrary: n)
  case 0
  then show ?case by simp
next
  case (Suc k)
  then show ?case by (simp add: mod_mult2_eq)
qed

lemma digits_pad_lt: "0 < b \<Longrightarrow> d \<in> set (digits_pad b k n) \<Longrightarrow> d < b"
  by (induction k arbitrary: n) auto

lemma from_digits_append:
  "from_digits b (xs @ ys) = from_digits b xs + b ^ length xs * from_digits b ys"
  by (induction xs) (auto simp: algebra_simps)

lemma from_digits_lt:
  "(\<And>d. d \<in> set ds \<Longrightarrow> d < b) \<Longrightarrow> from_digits b ds < b ^ length ds"
proof (induction ds)
  case Nil
  then show ?case by simp
next
  case (Cons d ds)
  have d: "d < b" using Cons.prems by simp
  have "from_digits b ds < b ^ length ds" using Cons by simp
  then have "from_digits b ds + 1 \<le> b ^ length ds" by simp
  then have "b * (from_digits b ds + 1) \<le> b * b ^ length ds" by (rule mult_le_mono2)
  then show ?case using d by (simp add: algebra_simps)
qed

lemma from_digits_snoc_bounds:
  assumes "\<And>d. d \<in> set ds \<Longrightarrow> d < b"
  shows "x * b ^ length ds \<le> from_digits b (ds @ [x])"
    and "from_digits b (ds @ [x]) < (x + 1) * b ^ length ds"
  using from_digits_lt [of ds b] assms by (simp_all add: from_digits_append algebra_simps)

lemma bits_in_digit_upper: "d < 2 ^ bits_in_digit d"
proof (induction d rule: bits_in_digit.induct)
  case (1 d)
  show ?case
  proof (cases "d = 0")
    case True
    then show ?thesis by (simp add: bits_in_digit.simps)
  next
    case False
    with 1 have "d div 2 < 2 ^ bits_in_digit (d div 2)" by simp
    then show ?thesis using False by (simp add: bits_in_digit.simps [of d]) 
  qed
qed

lemma bits_in_digit_lower: "0 < d \<Longrightarrow> 2 ^ (bits_in_digit d - 1) \<le> d"
proof (induction d rule: bits_in_digit.induct)
  case (1 d)
  show ?case
  proof (cases "d div 2 = 0")
    case True
    then have "d = 1" using 1(2) by (simp add: div_eq_0_iff) 
    then show ?thesis
      by (simp add: bits_in_digit.simps [of "Suc 0"] bits_in_digit.simps [of 0])
  next
    case False
    with 1 have ih: "2 ^ (bits_in_digit (d div 2) - 1) \<le> d div 2" by simp
    have pos: "0 < bits_in_digit (d div 2)"
      using False by (simp add: bits_in_digit.simps [of "d div 2"])
    have "2 ^ bits_in_digit (d div 2) = 2 * 2 ^ (bits_in_digit (d div 2) - 1)"
      using pos by (cases "bits_in_digit (d div 2)") simp_all
    also have "\<dots> \<le> 2 * (d div 2)" using ih by simp
    also have "\<dots> \<le> d" by simp
    finally show ?thesis using 1(2) by (simp add: bits_in_digit.simps [of d])
  qed
qed

lemma bits_in_digit_pos: "0 < d \<Longrightarrow> 0 < bits_in_digit d"
  by (simp add: bits_in_digit.simps [of d])


lemma bits_in_digit_unique:
  assumes "0 < m" and "2 ^ (a - 1) \<le> m" and "m < 2 ^ a"
  shows "bits_in_digit m = a"
proof (rule ccontr)
  assume ne: "bits_in_digit m \<noteq> a"
  let ?c = "bits_in_digit m"
  have lo: "2 ^ (?c - 1) \<le> m" using assms(1) by (rule bits_in_digit_lower)
  have hi: "m < 2 ^ ?c" by (rule bits_in_digit_upper)
  show False
  proof (cases "?c < a")
    case True
    then have "?c \<le> a - 1" by simp
    then have "(2::nat) ^ ?c \<le> 2 ^ (a - 1)" by (simp add: power_increasing)
    with hi assms(2) show False by linarith
  next
    case False
    with ne have "a \<le> ?c - 1" by simp
    then have "(2::nat) ^ a \<le> 2 ^ (?c - 1)" by (simp add: power_increasing)
    with lo assms(3) show False by linarith
  qed
qed

lemma bits_in_digit_power2: "bits_in_digit (2 ^ k) = Suc k"
  by (rule bits_in_digit_unique) simp_all

lemma bits_in_digit_0: "bits_in_digit 0 = 0"
  by (simp add: bits_in_digit.simps)

lemma bits_in_digit_eq_0: "bits_in_digit m = 0 \<longleftrightarrow> m = 0"
  by (simp add: bits_in_digit.simps [of m])

text \<open>The bit count the host computes from the digits is the bit length.\<close>

lemma numbits_digits:
  assumes "0 < m" and "0 < s"
  shows "(length (digits_of (2 ^ s) m) - 1) * s
           + bits_in_digit (last (digits_of (2 ^ s) m)) = bits_in_digit m"
proof -
  define B :: nat where "B = 2 ^ s"
  define ds where "ds = digits_of B m"
  define x where "x = last ds"
  define l where "l = length ds - 1"
  have b2: "2 \<le> B" using assms(2) unfolding B_def by (cases s) simp_all
  have ne: "ds \<noteq> []" unfolding ds_def using b2 assms(1) by (rule digits_of_nonempty)
  have xpos: "0 < x" unfolding x_def ds_def using b2 assms(1) by (rule last_digits_of)
  have split: "ds = butlast ds @ [x]" using ne by (simp add: x_def)
  have lb: "length (butlast ds) = l" by (simp add: l_def)
  have small: "\<And>d. d \<in> set (butlast ds) \<Longrightarrow> d < B"
    using digits_of_lt [OF b2] unfolding ds_def by (meson in_set_butlastD)
  have "from_digits B ds = m" unfolding ds_def using b2 by (rule from_digits_digits_of)
  then have m: "from_digits B (butlast ds @ [x]) = m" using split by simp
  have lo: "x * B ^ l \<le> m"
    using from_digits_snoc_bounds(1) [of "butlast ds" B x] small m lb by simp
  have hi: "m < (x + 1) * B ^ l"
    using from_digits_snoc_bounds(2) [of "butlast ds" B x] small m lb by simp
  have pw: "B ^ l = 2 ^ (s * l)" unfolding B_def by (simp only: power_mult)
  define c where "c = bits_in_digit x"
  have cpos: "0 < c" unfolding c_def using xpos by (rule bits_in_digit_pos)
  have "x + 1 \<le> 2 ^ c" using bits_in_digit_upper [of x] by (simp add: c_def)
  then have "(x + 1) * 2 ^ (s * l) \<le> 2 ^ c * 2 ^ (s * l)" by (rule mult_le_mono1)
  moreover have "m < (x + 1) * 2 ^ (s * l)" using hi unfolding pw .
  ultimately have "m < 2 ^ c * 2 ^ (s * l)" by (rule order.strict_trans2 [rotated])
  then have hi': "m < 2 ^ (l * s + c)" by (simp add: power_add mult.commute)
  have "2 ^ (c - 1) * 2 ^ (s * l) \<le> x * (2::nat) ^ (s * l)"
    using bits_in_digit_lower [OF xpos] unfolding c_def by (rule mult_le_mono1)
  moreover have "x * 2 ^ (s * l) \<le> m" using lo unfolding pw .
  ultimately have "2 ^ (c - 1) * 2 ^ (s * l) \<le> m" by (rule order.trans)
  then have "2 ^ (l * s + (c - 1)) \<le> m" by (simp add: power_add mult.commute)
  moreover have "l * s + (c - 1) = l * s + c - 1" using cpos by simp
  ultimately have lo': "2 ^ (l * s + c - 1) \<le> m" by simp
  have "bits_in_digit m = l * s + c" using assms(1) lo' hi' by (rule bits_in_digit_unique)
  then show ?thesis by (simp add: l_def c_def x_def ds_def B_def)
qed

lemma length_digits_le_bits:
  assumes "0 < s"
  shows "length (digits_of (2 ^ s) m) \<le> bits_in_digit m"
proof (cases "m = 0")
  case True
  then show ?thesis by (simp add: digits_of_0)
next
  case False
  then have pos: "0 < m" by simp
  have b2: "(2::nat) \<le> 2 ^ s" using assms by (cases s) simp_all
  have "0 < bits_in_digit (last (digits_of (2 ^ s) m))"
    using b2 pos by (simp add: bits_in_digit_pos last_digits_of)
  moreover have "length (digits_of (2 ^ s) m) - 1 \<le> (length (digits_of (2 ^ s) m) - 1) * s"
    using assms by simp
  ultimately show ?thesis using numbits_digits [OF pos assms] by linarith
qed

subsection \<open>The object of an integer\<close>

lemma PyLong_SHIFT_pos: "0 < PyLong_SHIFT"
  by (simp add: PyLong_SHIFT_def)

lemma PyLong_base_ge2: "(2::nat) \<le> 2 ^ PyLong_SHIFT"
  by (simp add: PyLong_SHIFT_def)

lemma JS_base_ge2: "(2::nat) \<le> 2 ^ JS_DIGIT_BIT"
  by (simp add: JS_DIGIT_BIT_def)

lemma abs_ob_size_of_int:
  "nat \<bar>ob_size (PyLong_of_int t n)\<bar> = length (digits_of (2 ^ PyLong_SHIFT) (nat \<bar>n\<bar>))"
  by (cases "n = 0") (simp_all add: PyLong_of_int_def abs_mult digits_of_0)

lemma py_magnitude_of_int: "py_magnitude (PyLong_of_int t n) = nat \<bar>n\<bar>"
  unfolding py_magnitude_def abs_ob_size_of_int
  by (simp add: PyLong_of_int_def from_digits_digits_of [OF PyLong_base_ge2])

lemma ob_size_of_int_sgn: "sgn (ob_size (PyLong_of_int t n)) = sgn n"
proof (cases "n = 0")
  case True
  then show ?thesis by (simp add: PyLong_of_int_def)
next
  case False
  then have "0 < nat \<bar>n\<bar>" by simp
  then have "digits_of (2 ^ PyLong_SHIFT) (nat \<bar>n\<bar>) \<noteq> []"
    using PyLong_base_ge2 by (simp add: digits_of_nonempty)
  then have "0 < int (length (digits_of (2 ^ PyLong_SHIFT) (nat \<bar>n\<bar>)))" by simp
  then show ?thesis
    by (simp add: PyLong_of_int_def sgn_mult)
qed

lemma py_value_of_int: "py_value (PyLong_of_int t n) = n"
  by (simp add: py_value_def py_magnitude_of_int ob_size_of_int_sgn sgn_mult_abs)

subsection \<open>What the host primitives return for the object of an integer\<close>

lemma last_ob_digit_of_int:
  assumes "n \<noteq> 0"
  shows "ob_digit (PyLong_of_int t n) ! (nat \<bar>ob_size (PyLong_of_int t n)\<bar> - 1)
         = last (digits_of (2 ^ PyLong_SHIFT) (nat \<bar>n\<bar>))"
proof -
  have "digits_of (2 ^ PyLong_SHIFT) (nat \<bar>n\<bar>) \<noteq> []"
    using assms PyLong_base_ge2 by (simp add: digits_of_nonempty)
  then show ?thesis
    unfolding abs_ob_size_of_int by (simp add: PyLong_of_int_def last_conv_nth)
qed

lemma PyLong_NumBits_of_int:
  assumes "heap s ! p = PyLong_of_int t n" and "bits_in_digit (nat \<bar>n\<bar>) \<le> SIZE_MAX"
  shows "PyLong_NumBits s p = (of_nat (bits_in_digit (nat \<bar>n\<bar>)), s)"
proof (cases "n = 0")
  case True
  then show ?thesis
    using assms(1) by (simp add: PyLong_NumBits_def PyLong_of_int_def bits_in_digit_0)
next
  case False
  define m where "m = nat \<bar>n\<bar>"
  define nd where "nd = length (digits_of (2 ^ PyLong_SHIFT) m)"
  define msd where "msd = last (digits_of (2 ^ PyLong_SHIFT) m)"
  have pos: "0 < m" using False by (simp add: m_def)
  have ndpos: "0 < nd"
    unfolding nd_def using pos PyLong_base_ge2 by (simp add: digits_of_nonempty)
  have sz: "nat \<bar>ob_size (heap s ! p)\<bar> = nd"
    by (simp add: assms(1) abs_ob_size_of_int nd_def m_def)
  have dg: "ob_digit (heap s ! p) ! (nd - 1) = msd"
    using last_ob_digit_of_int [OF False, of t] sz
    by (simp add: assms(1) msd_def m_def)
  have nb: "(nd - 1) * PyLong_SHIFT + bits_in_digit msd = bits_in_digit m"
    unfolding nd_def msd_def using pos PyLong_SHIFT_pos by (rule numbits_digits)
  have le: "bits_in_digit m \<le> SIZE_MAX" using assms(2) by (simp add: m_def)
  have c1: "\<not> nd - 1 > SIZE_MAX div PyLong_SHIFT"
  proof -
    have "(nd - 1) * PyLong_SHIFT \<le> SIZE_MAX" using nb le by linarith
    then have "nd - 1 \<le> SIZE_MAX div PyLong_SHIFT"
      using PyLong_SHIFT_pos by (simp add: less_eq_div_iff_mult_less_eq)
    then show ?thesis by simp
  qed
  have c2: "\<not> SIZE_MAX - bits_in_digit msd < (nd - 1) * PyLong_SHIFT"
    using nb le by linarith
  have nz: "ob_size (heap s ! p) \<noteq> 0" using sz ndpos by auto
  have "PyLong_NumBits s p = (of_nat ((nd - 1) * PyLong_SHIFT + bits_in_digit msd), s)"
    using ndpos c1 c2 sz dg nz
    by (simp add: PyLong_NumBits_def Let_def del: of_nat_add of_nat_mult)
  then show ?thesis by (simp only: nb m_def)
qed

lemma PyLong_of_int_neg_size:
  "(PyLong_of_int t n)\<lparr>ob_size := - ob_size (PyLong_of_int t n)\<rparr> = PyLong_of_int t (- n)"
  by (simp add: PyLong_of_int_def)

lemma toJsBigInt_force_of_int:
  assumes "p < length (heap s)" and "heap s ! p = PyLong_of_int t n"
  shows "toJsBigInt_force s p = s\<lparr>heap := (heap s)[p := PyLong_of_int t \<bar>n\<bar>]\<rparr>"
proof (cases "n < 0")
  case True
  then have "Py_SIZE s p < 0"
    using ob_size_of_int_sgn [of t n] assms(2) by (simp add: Py_SIZE_def sgn_if split: if_splits)
  moreover have "\<bar>n\<bar> = - n" using True by simp
  ultimately show ?thesis
    by (simp add: toJsBigInt_force_def Let_def Py_SET_SIZE_def Py_SIZE_def assms(2)
        PyLong_of_int_neg_size)
next
  case False
  then have "\<not> Py_SIZE s p < 0"
    using ob_size_of_int_sgn [of t n] assms(2) by (simp add: Py_SIZE_def sgn_if split: if_splits)
  moreover have "\<bar>n\<bar> = n" using False by simp
  moreover have "(heap s)[p := heap s ! p] = heap s" by simp
  ultimately show ?thesis
    using assms(2) by (simp add: toJsBigInt_force_def Let_def)
qed

lemma ob_size_of_nat_nonneg: "0 \<le> ob_size (PyLong_of_int t (int m))"
  by (simp add: PyLong_of_int_def sgn_if)

lemma PyLong_AsUnsignedLongLong_of_nat:
  assumes "heap s ! p = PyLong_of_int t (int m)" and "m < 2 ^ 64"
  shows "PyLong_AsUnsignedLongLong s p = (of_nat m, s)"
  using assms ob_size_of_nat_nonneg [of t m]
  by (simp add: PyLong_AsUnsignedLongLong_def Let_def py_magnitude_of_int not_less [symmetric])

lemma PyLong_AsUnsignedLongLong_overflow:
  assumes "heap s ! p = PyLong_of_int t (int m)" and "2 ^ 64 \<le> m"
  shows "PyLong_AsUnsignedLongLong s p
         = (- 1, PyErr_SetString s PyExc_OverflowError ''int too big to convert'')"
  using assms ob_size_of_nat_nonneg [of t m]
  by (simp add: PyLong_AsUnsignedLongLong_def Let_def py_magnitude_of_int not_less [symmetric])

lemma PyLong_AsByteArray_of_nat:
  assumes "heap s ! p = PyLong_of_int t (int m)" and "m < 256 ^ k"
  shows "PyLong_AsByteArray s p k = (map of_nat (rev (digits_pad 256 k m)), s)"
  using assms ob_size_of_nat_nonneg [of t m]
  by (simp add: PyLong_AsByteArray_def Let_def py_magnitude_of_int not_less [symmetric])

subsection \<open>The hexadecimal string\<close>

lemma byte_nibble_lo: "unat (b AND 0xf) = unat b mod 16" for b :: "8 word"
proof -
  have m: "(0xf :: 8 word) = mask 4" by (simp add: mask_eq_exp_minus_1)
  show ?thesis
    unfolding m
    by (simp only: take_bit_eq_mask [symmetric] unsigned_take_bit_eq) (simp add: take_bit_eq_mod)
qed

lemma byte_nibble_hi: "unat (drop_bit 4 b) = unat b div 16" for b :: "8 word"
  by (simp add: unat_drop_bit_eq drop_bit_eq_div unat_div)

lemma digit_value_table:
  "map digit_value HEX_CHAR_LOOKUP_TABLE = map Some [0..<16]"
  by (simp add: HEX_CHAR_LOOKUP_TABLE_def digit_value_def upt_rec)

lemma digit_value_hex:
  assumes "i < 16"
  shows "digit_value (HEX_CHAR_LOOKUP_TABLE ! i) = Some i"
proof -
  have l: "length HEX_CHAR_LOOKUP_TABLE = 16" by (simp add: HEX_CHAR_LOOKUP_TABLE_def)
  have "digit_value (HEX_CHAR_LOOKUP_TABLE ! i) = map digit_value HEX_CHAR_LOOKUP_TABLE ! i"
    using assms l by simp
  also have "\<dots> = map Some [0..<16] ! i" by (simp only: digit_value_table)
  also have "\<dots> = Some i" using assms by simp
  finally show ?thesis .
qed

lemma bytes_to_hex_Cons_nat:
  assumes "x < 256"
  shows "bytes_to_hex (of_nat x # bs)
         = HEX_CHAR_LOOKUP_TABLE ! (x div 16) # HEX_CHAR_LOOKUP_TABLE ! (x mod 16)
             # bytes_to_hex bs"
proof -
  have u: "unat (of_nat x :: 8 word) = x" using assms by (simp add: unat_of_nat)
  have h: "(x div 16) mod 16 = x div 16" using assms by simp
  show ?thesis by (simp only: bytes_to_hex.simps byte_nibble_lo byte_nibble_hi u h)
qed

lemma parse_hex_bytes:
  assumes "\<And>x. x \<in> set xs \<Longrightarrow> x < 256"
  shows "parse_digits 16 acc (bytes_to_hex (map of_nat xs))
         = Some (foldl (\<lambda>a x. a * 256 + x) acc xs)"
  using assms
proof (induction xs arbitrary: acc)
  case Nil
  then show ?case by simp
next
  case (Cons x xs)
  have x: "x < 256" using Cons.prems by simp
  have hi: "x div 16 < 16" using x by simp
  have lo: "x mod 16 < 16" by simp
  have e: "(acc * 16 + x div 16) * 16 + x mod 16 = acc * 256 + x" by simp
  have "parse_digits 16 acc (bytes_to_hex (map of_nat (x # xs)))
        = parse_digits 16 ((acc * 16 + x div 16) * 16 + x mod 16)
            (bytes_to_hex (map of_nat xs))"
    by (simp only: list.map bytes_to_hex_Cons_nat [OF x] parse_digits.simps
        digit_value_hex [OF hi] digit_value_hex [OF lo] option.case hi lo if_True)
  also have "\<dots> = parse_digits 16 (acc * 256 + x) (bytes_to_hex (map of_nat xs))"
    by (simp only: e)
  also have "\<dots> = Some (foldl (\<lambda>a x. a * 256 + x) (acc * 256 + x) xs)"
    using Cons.prems by (intro Cons.IH) simp
  finally show ?case by simp
qed

lemma foldl_rev_from_digits:
  "foldl (\<lambda>a x. a * 256 + x) 0 (rev ds) = from_digits 256 ds"
  by (induction ds) (simp_all add: mult.commute)

lemma bytes_to_hex_eq_Nil: "bytes_to_hex bs = [] \<longleftrightarrow> bs = []"
  by (cases bs) simp_all

lemma parse_hex_pad:
  assumes "m < 256 ^ k"
  shows "parse_digits 16 0 (bytes_to_hex (map of_nat (rev (digits_pad 256 k m)))) = Some m"
proof -
  have small: "\<And>x. x \<in> set (rev (digits_pad 256 k m)) \<Longrightarrow> x < 256"
  proof -
    fix x
    assume "x \<in> set (rev (digits_pad 256 k m))"
    then have "x \<in> set (digits_pad 256 k m)" by simp
    then show "x < 256" by (rule digits_pad_lt [rotated]) simp
  qed
  have "parse_digits 16 0 (bytes_to_hex (map of_nat (rev (digits_pad 256 k m))))
          = Some (foldl (\<lambda>a x. a * 256 + x) 0 (rev (digits_pad 256 k m)))"
    by (rule parse_hex_bytes) (rule small)
  then have "parse_digits 16 0 (bytes_to_hex (map of_nat (rev (digits_pad 256 k m))))
          = Some (from_digits 256 (digits_pad 256 k m))"
    by (simp only: foldl_rev_from_digits)
  also have "from_digits 256 (digits_pad 256 k m) = m"
    using assms by (simp add: from_digits_pad)
  finally show ?thesis .
qed

lemma digits_pad_nonempty: "0 < k \<Longrightarrow> digits_pad 256 k m \<noteq> []"
  using length_digits_pad [of 256 k m] by (cases "digits_pad 256 k m") simp_all

lemma SimpleStringToBigInt_hex:
  assumes "0 < k" and "m < 256 ^ k"
    and "length (digits_of (2 ^ JS_DIGIT_BIT) m) \<le> MaxDigitLength"
  shows "SimpleStringToBigInt (bytes_to_hex (map of_nat (rev (digits_pad 256 k m)))) 16
         = Some (BigInt_of_nat m)"
  using digits_pad_nonempty [OF assms(1)] assms(3)
  by (simp add: SimpleStringToBigInt_def bytes_to_hex_eq_Nil parse_hex_pad [OF assms(2)])

text \<open>The engine refuses a magnitude of more digits than its big integers have.\<close>

lemma SimpleStringToBigInt_hex_refused:
  assumes "0 < k" and "m < 256 ^ k"
    and "MaxDigitLength < length (digits_of (2 ^ JS_DIGIT_BIT) m)"
  shows "SimpleStringToBigInt (bytes_to_hex (map of_nat (rev (digits_pad 256 k m)))) 16
         = None"
  using digits_pad_nonempty [OF assms(1)] assms(3)
  by (simp add: SimpleStringToBigInt_def bytes_to_hex_eq_Nil parse_hex_pad [OF assms(2)])

lemma digits_of_single:
  assumes "2 \<le> b" and "0 < m" and "m < b"
  shows "digits_of b m = [m]"
  using assms by (simp add: digits_of.simps [of b m] digits_of_0)

lemma BigIntFromUint64_of_nat:
  assumes "m < 2 ^ 64"
  shows "BigIntFromUint64 (of_nat m) = BigInt_of_nat m"
proof (cases "m = 0")
  case True
  then show ?thesis by (simp add: BigIntFromUint64_def BigInt_of_nat_def digits_of_0)
next
  case False
  have "unat (of_nat m :: 64 word) = m" using assms by (simp add: unat_of_nat)
  then have nz: "(of_nat m :: 64 word) \<noteq> 0" using False by auto
  have "m < 2 ^ JS_DIGIT_BIT" using assms by (simp add: JS_DIGIT_BIT_def)
  then have "digits_of (2 ^ JS_DIGIT_BIT) m = [m]"
    using False JS_base_ge2 by (simp add: digits_of_single)
  then show ?thesis using nz by (simp add: BigIntFromUint64_def BigInt_of_nat_def)
qed

subsection \<open>The digit count\<close>

lemma unat_digit_expr:
  fixes bitCount :: "64 word"
  assumes "bitCount \<noteq> 0"
  shows "unat ((bitCount - 1) div 64 + 1) = (unat bitCount - 1) div 64 + 1"
proof -
  have a: "unat (bitCount - 1) = unat bitCount - 1"
    using assms by (simp add: unat_minus_one)
  have b: "unat ((bitCount - 1) div 64) = (unat bitCount - 1) div 64"
    by (simp add: unat_div a)
  have lt: "unat bitCount < 2 ^ 64"
    using unsigned_less [of bitCount] by simp
  have c: "unat ((bitCount - 1) div 64) + unat (1 :: 64 word) < 2 ^ LENGTH(64)"
    using lt by (simp add: b)
  show ?thesis
    using c by (simp add: unat_add_lem [THEN iffD1] b)
qed

lemma unat_jsDigitCount_of_mod:
  "unat (jsDigitCount_of bitCount) = digit_count_spec (unat bitCount) mod 2 ^ 32"
proof (cases "bitCount = 0")
  case True
  then show ?thesis by (simp add: jsDigitCount_of_def digit_count_spec_def)
next
  case False
  then have pos: "0 < unat bitCount" by (simp add: unat_gt_0)
  have e: "unat ((bitCount - 1) div 64 + 1) = (unat bitCount - 1) div 64 + 1"
    using False by (rule unat_digit_expr)
  have "unat (jsDigitCount_of bitCount) = ((unat bitCount - 1) div 64 + 1) mod 2 ^ 32"
    using False
    by (simp add: jsDigitCount_of_def JS_DIGIT_BIT_def unsigned_ucast_eq e take_bit_eq_mod)
  moreover have "(unat bitCount - 1) div 64 + 1 = digit_count_spec (unat bitCount)"
    using pos by (simp add: digit_count_spec_def)
  ultimately show ?thesis by simp
qed

lemma unat_jsDigitCount_of:
  assumes "unat bitCount \<le> 64 * (2 ^ 32 - 1)"
  shows "unat (jsDigitCount_of bitCount) = digit_count_spec (unat bitCount)"
proof -
  have "digit_count_spec (unat bitCount) < 2 ^ 32"
    using assms by (simp add: digit_count_spec_def)
  then show ?thesis by (simp add: unat_jsDigitCount_of_mod)
qed

text \<open>
  C5, within the 32-bit digit count. For a source integer whose magnitude has at most \<open>64 * (2 ^ 32 - 1)\<close>
  bits, the bit count the host reports is the bit length of the magnitude, and the digit
  count kept in \<open>jsDigitCount\<close> is the ceiling of that bit length over 64, with a minimum
  of one. (\<open>bits_in_digit\<close> applied to the magnitude is its bit length, see
  \<open>bits_in_digit_lower\<close> and \<open>bits_in_digit_upper\<close>; without the bound the digit
  count is that ceiling modulo \<open>2 ^ 32\<close>, see \<open>unat_jsDigitCount_of_mod\<close>.)
\<close>

theorem jsDigitCount_of_int:
  assumes "heap s ! p = PyLong_of_int t n"
    and "bits_in_digit (nat \<bar>n\<bar>) \<le> 64 * (2 ^ 32 - 1)"
  shows "fst (PyLong_NumBits s p) = of_nat (bits_in_digit (nat \<bar>n\<bar>))
       \<and> unat (jsDigitCount_of (fst (PyLong_NumBits s p)))
           = digit_count_spec (bits_in_digit (nat \<bar>n\<bar>))"
proof -
  define nb where "nb = bits_in_digit (nat \<bar>n\<bar>)"
  have le: "nb \<le> SIZE_MAX" using assms(2) by (simp add: nb_def SIZE_MAX_def)
  have nbits: "PyLong_NumBits s p = (of_nat nb, s)"
    unfolding nb_def using assms(1) le [unfolded nb_def] by (rule PyLong_NumBits_of_int)
  have ub: "unat (of_nat nb :: 64 word) = nb"
    using assms(2) by (simp add: unat_of_nat nb_def)
  have "unat (of_nat nb :: 64 word) \<le> 64 * (2 ^ 32 - 1)"
    unfolding ub using assms(2) by (simp add: nb_def)
  then have "unat (jsDigitCount_of (of_nat nb)) = digit_count_spec (unat (of_nat nb :: 64 word))"
    by (rule unat_jsDigitCount_of)
  then have "unat (jsDigitCount_of (of_nat nb)) = digit_count_spec nb" by (simp only: ub)
  then show ?thesis unfolding nbits fst_conv nb_def by simp
qed

theorem jsDigitCount_of_int_witness:
  "bits_in_digit (nat \<bar>- (2 ^ 70 - 1)\<bar>) = 70
   \<and> unat (jsDigitCount_of (fst (PyLong_NumBits
        \<lparr>heap = [PyLong_of_int PyLong_Type (- (2 ^ 70 - 1))],
         small_int_zero = 0, err = None\<rparr> 0))) = 2"
proof -
  let ?s = "\<lparr>heap = [PyLong_of_int PyLong_Type (- (2 ^ 70 - 1))],
             small_int_zero = 0, err = None\<rparr>"
  have obj: "heap ?s ! 0 = PyLong_of_int PyLong_Type (- (2 ^ 70 - 1))" by simp
  have "bits_in_digit (2 ^ 70 - 1) = 70" by (rule bits_in_digit_unique) simp_all
  then have b: "bits_in_digit (nat \<bar>- (2 ^ 70 - 1)\<bar>) = 70" by simp
  then have bits: "bits_in_digit (nat \<bar>- (2 ^ 70 - 1)\<bar>) \<le> 64 * (2 ^ 32 - 1)" by simp
  have d: "digit_count_spec 70 = 2" by (simp add: digit_count_spec_def)
  have "unat (jsDigitCount_of (fst (PyLong_NumBits ?s 0)))
        = digit_count_spec (bits_in_digit (nat \<bar>- (2 ^ 70 - 1)\<bar>))"
    using jsDigitCount_of_int [OF obj bits] by (rule conjunct2)
  then have "unat (jsDigitCount_of (fst (PyLong_NumBits ?s 0))) = 2" by (simp only: b d)
  with b show ?thesis by (rule conjI)
qed

lemma jsDigitCount_wrapped:
  assumes N: "N = 2 ^ K" and fits: "Suc K < 2 ^ 64 - 1"
    and wrap: "jsDigitCount_of (of_nat (Suc K)) = 0"
    and spec: "digit_count_spec (Suc K) = c"
  shows "jsDigitCount_of (fst (PyLong_NumBits
           \<lparr>heap = [PyLong_of_int PyLong_Type N], small_int_zero = 0, err = None\<rparr> 0)) = 0
       \<and> digit_count_spec (bits_in_digit (nat \<bar>N\<bar>)) = c"
proof -
  define s where "s = \<lparr>heap = [PyLong_of_int PyLong_Type N], small_int_zero = 0, err = None\<rparr>"
  have m: "nat \<bar>2 ^ K :: int\<bar> = 2 ^ K" by (simp add: nat_power_eq)
  have bits: "bits_in_digit (nat \<bar>N\<bar>) = Suc K"
    unfolding N m by (rule bits_in_digit_power2)
  have obj: "heap s ! 0 = PyLong_of_int PyLong_Type N" by (simp add: s_def)
  have "bits_in_digit (nat \<bar>N\<bar>) \<le> SIZE_MAX"
    unfolding bits using fits by (simp add: SIZE_MAX_def)
  with obj have "PyLong_NumBits s 0 = (of_nat (bits_in_digit (nat \<bar>N\<bar>)), s)"
    by (rule PyLong_NumBits_of_int)
  then have "fst (PyLong_NumBits s 0) = of_nat (Suc K)" by (simp only: bits fst_conv)
  then have "jsDigitCount_of (fst (PyLong_NumBits s 0)) = 0" by (simp only: wrap)
  then show ?thesis unfolding s_def bits using spec by (rule conjI)
qed

text \<open>
  C5 without the bound fails: for the integer \<open>2 ^ (64 * (2 ^ 32 - 1))\<close> the ceiling
  is \<open>2 ^ 32\<close>, and the digit count, narrowed to 32 bits, is \<open>0\<close>.
\<close>

theorem jsDigitCount_counterexample:
  "jsDigitCount_of (fst (PyLong_NumBits
      \<lparr>heap = [PyLong_of_int PyLong_Type (2 ^ (64 * (2 ^ 32 - 1)))],
       small_int_zero = 0, err = None\<rparr> 0)) = 0
   \<and> digit_count_spec (bits_in_digit (nat \<bar>2 ^ (64 * (2 ^ 32 - 1))\<bar>)) = 2 ^ 32"
proof (rule jsDigitCount_wrapped)
  show "(2::int) ^ (64 * (2 ^ 32 - 1)) = 2 ^ (64 * (2 ^ 32 - 1))" by (rule refl)
  show "Suc (64 * (2 ^ 32 - 1)) < 2 ^ 64 - 1" by simp
  show "jsDigitCount_of (of_nat (Suc (64 * (2 ^ 32 - 1)))) = 0"
    by (simp add: jsDigitCount_of_def JS_DIGIT_BIT_def)
  show "digit_count_spec (Suc (64 * (2 ^ 32 - 1))) = 2 ^ 32"
    by (simp add: digit_count_spec_def)
qed

subsection \<open>Encoding the object of an integer\<close>

lemma digit_count_spec_covers: "bits \<le> 64 * digit_count_spec bits"
  by (simp add: digit_count_spec_def)

lemma digit_count_spec_le1: "digit_count_spec bits \<le> 1 \<Longrightarrow> bits \<le> 64"
  by (simp add: digit_count_spec_def)

lemma pow256_8: "(256::nat) ^ (8 * u) = 2 ^ (64 * u)"
proof -
  have "(256::nat) = 2 ^ 8" by simp
  then have "(256::nat) ^ (8 * u) = (2 ^ 8) ^ (8 * u)" by simp
  also have "\<dots> = 2 ^ (8 * (8 * u))" by (simp only: power_mult)
  finally show ?thesis by simp
qed

lemma unat_byteCount:
  fixes k :: "32 word"
  shows "unat (of_nat JS_DIGIT_BYTE * ucast k :: 64 word) = 8 * unat k"
proof -
  have lt: "unat k < 2 ^ 32" using unsigned_less [of k] by simp
  have u: "unat (ucast k :: 64 word) = unat k"
    using lt by (simp add: unsigned_ucast_eq take_bit_eq_mod)
  have e: "unat (8 :: 64 word) = 8" by simp
  have "unat (8 :: 64 word) * unat (ucast k :: 64 word) < 2 ^ LENGTH(64)"
    using lt by (simp add: u)
  then have "unat (8 * ucast k :: 64 word) = unat (8 :: 64 word) * unat (ucast k :: 64 word)"
    by (simp only: unat_mult_lem)
  then show ?thesis by (simp add: JS_DIGIT_BYTE_def u)
qed

lemma MaxBitLength_digits: "MaxBitLength = JS_DIGIT_BIT * MaxDigitLength"
  by (simp add: MaxBitLength_def MaxDigitLength_def JS_DIGIT_BIT_def)

lemma MaxBitLength_le: "MaxBitLength \<le> 64 * (2 ^ 32 - 1)"
  by (simp add: MaxBitLength_def)

lemma MaxDigitLength_lt: "MaxDigitLength < 2 ^ 32"
  by (simp add: MaxBitLength_def MaxDigitLength_def JS_DIGIT_BIT_def)

text \<open>A magnitude of at most \<open>MaxBitLength\<close> bits is one the engine takes.\<close>

lemma length_js_digits_cap:
  assumes "bits_in_digit m \<le> MaxBitLength"
  shows "length (digits_of (2 ^ JS_DIGIT_BIT) m) \<le> MaxDigitLength"
proof -
  have "m < 2 ^ bits_in_digit m" by (rule bits_in_digit_upper)
  moreover have "(2::nat) ^ bits_in_digit m \<le> 2 ^ MaxBitLength"
    using assms by (intro power_increasing) simp_all
  ultimately have "m < 2 ^ MaxBitLength" by (rule order.strict_trans2)
  then have "m < (2 ^ JS_DIGIT_BIT) ^ MaxDigitLength"
    by (simp only: MaxBitLength_digits power_mult)
  with JS_base_ge2 show ?thesis by (rule length_digits_of_le)
qed

lemma toJsBigInt_build_of_nat:
  assumes obj: "heap s ! p = PyLong_of_int t (int m)"
    and bits: "bits_in_digit m \<le> MaxBitLength"
    and mem: "1 < digit_count_spec (bits_in_digit m) \<Longrightarrow>
              malloc_ok (8 * digit_count_spec (bits_in_digit m))"
  shows "toJsBigInt_build malloc_ok s p (jsDigitCount_of (of_nat (bits_in_digit m)))
         = Returns (Some (BigInt_of_nat m), s)"
proof -
  define nb where "nb = bits_in_digit m"
  define k where "k = jsDigitCount_of (of_nat nb)"
  have bits': "nb \<le> 64 * (2 ^ 32 - 1)"
    using bits MaxBitLength_le by (simp add: nb_def)
  have nb64: "nb < 2 ^ 64" using bits' by simp
  have ub: "unat (of_nat nb :: 64 word) = nb" using nb64 by (simp add: unat_of_nat)
  have "unat (of_nat nb :: 64 word) \<le> 64 * (2 ^ 32 - 1)"
    unfolding ub using bits' by simp
  from unat_jsDigitCount_of [OF this] have uk: "unat k = digit_count_spec nb"
    by (simp only: k_def ub)
  have mlt: "m < 2 ^ nb" unfolding nb_def by (rule bits_in_digit_upper)
  show ?thesis
  proof (cases "k \<le> 1")
    case True
    then have "unat k \<le> 1" by (simp add: word_le_nat_alt)
    then have "nb \<le> 64" using uk by (simp add: digit_count_spec_le1)
    then have "(2::nat) ^ nb \<le> 2 ^ 64" by (intro power_increasing) simp_all
    with mlt have "m < 2 ^ 64" by (rule order.strict_trans2)
    then show ?thesis
      using True obj
      by (simp add: toJsBigInt_build_def k_def [symmetric] nb_def [symmetric]
          PyLong_AsUnsignedLongLong_of_nat BigIntFromUint64_of_nat)
  next
    case False
    then have k1: "1 < unat k" by (auto simp: word_le_nat_alt)
    then have ok: "malloc_ok (8 * unat k)" using mem by (simp add: uk nb_def)
    have "nb \<le> 64 * unat k" unfolding uk by (rule digit_count_spec_covers)
    then have "(2::nat) ^ nb \<le> 2 ^ (64 * unat k)" by (intro power_increasing) simp_all
    with mlt have "m < 2 ^ (64 * unat k)" by (rule order.strict_trans2)
    then have fit: "m < 256 ^ (8 * unat k)" by (simp only: pow256_8)
    have pos: "0 < 8 * unat k" using k1 by simp
    have cap: "length (digits_of (2 ^ JS_DIGIT_BIT) m) \<le> MaxDigitLength"
      using bits by (rule length_js_digits_cap)
    show ?thesis
      using False ok
      by (simp add: toJsBigInt_build_def k_def [symmetric] nb_def [symmetric] Let_def
          unat_byteCount PyLong_AsByteArray_of_nat [OF obj fit]
          SimpleStringToBigInt_hex [OF pos fit cap])
  qed
qed

lemma PyLong_of_int_set_type: "(PyLong_of_int t n)\<lparr>ob_type := t'\<rparr> = PyLong_of_int t' n"
  by (simp add: PyLong_of_int_def)

lemma PyLong_of_int_abs_set_size:
  "(PyLong_of_int t \<bar>n\<bar>)\<lparr>ob_size := ob_size (PyLong_of_int t n)\<rparr> = PyLong_of_int t n"
  by (simp add: PyLong_of_int_def)

lemma toJsBigInt_of_int:
  assumes valid: "p < length (heap s)"
    and obj: "heap s ! p = PyLong_of_int t n"
    and bits: "bits_in_digit (nat \<bar>n\<bar>) \<le> MaxBitLength"
    and mem: "1 < digit_count_spec (bits_in_digit (nat \<bar>n\<bar>)) \<Longrightarrow>
              malloc_ok (8 * digit_count_spec (bits_in_digit (nat \<bar>n\<bar>)))"
  shows "toJsBigInt malloc_ok s p
         = Returns (Some ((BigInt_of_nat (nat \<bar>n\<bar>))
                            \<lparr>flagsField := (if n < 0 then SIGN_BIT_MASK else 0)\<rparr>), s)"
proof -
  define m where "m = nat \<bar>n\<bar>"
  define s1 where "s1 = s\<lparr>heap := (heap s)[p := PyLong_of_int t \<bar>n\<bar>]\<rparr>"
  have bits': "bits_in_digit m \<le> 64 * (2 ^ 32 - 1)"
    using bits MaxBitLength_le by (simp add: m_def)
  have le: "bits_in_digit m \<le> SIZE_MAX" using bits' by (simp add: SIZE_MAX_def)
  have nb: "PyLong_NumBits s p = (of_nat (bits_in_digit m), s)"
    unfolding m_def using obj le [unfolded m_def] by (rule PyLong_NumBits_of_int)
  have ub: "unat (of_nat (bits_in_digit m) :: 64 word) = bits_in_digit m"
    using bits' by (simp add: unat_of_nat)
  have um: "unat (- 1 :: 64 word) = 2 ^ 64 - 1"
    by (simp add: unsigned_minus_1_eq_mask mask_eq_exp_minus_1)
  have ne: "(of_nat (bits_in_digit m) :: 64 word) \<noteq> - 1"
  proof
    assume a: "(of_nat (bits_in_digit m) :: 64 word) = - 1"
    have "unat (of_nat (bits_in_digit m) :: 64 word) = unat (- 1 :: 64 word)"
      by (simp only: a)
    then have "bits_in_digit m = 2 ^ 64 - 1" by (simp only: ub um)
    with bits' show False by simp
  qed
  have force: "toJsBigInt_force s p = s1"
    unfolding s1_def using valid obj by (rule toJsBigInt_force_of_int)
  have obj1: "heap s1 ! p = PyLong_of_int t (int m)"
    using valid by (simp add: s1_def m_def)
  have build: "toJsBigInt_build malloc_ok s1 p (jsDigitCount_of (of_nat (bits_in_digit m)))
               = Returns (Some (BigInt_of_nat m), s1)"
    using obj1 bits [folded m_def] mem [folded m_def] by (rule toJsBigInt_build_of_nat)
  have neg: "Py_SIZE s p < 0 \<longleftrightarrow> n < 0"
    using ob_size_of_int_sgn [of t n] obj by (simp add: Py_SIZE_def sgn_if split: if_splits)
  have restore: "Py_SET_SIZE s1 p (Py_SIZE s p) = s"
    using valid obj
    by (simp add: Py_SET_SIZE_def Py_SIZE_def s1_def PyLong_of_int_abs_set_size
        list_update_same_conv)
  have same: "\<not> n < 0 \<Longrightarrow> s1 = s"
    using valid obj by (simp add: s1_def list_update_same_conv)
  have fl: "flagsField (BigInt_of_nat m) = 0" by (simp add: BigInt_of_nat_def)
  show ?thesis
    using ne same
    by (simp add: toJsBigInt_def nb force build neg restore fl m_def [symmetric]
        SIGN_BIT_MASK_def)
qed

subsection \<open>The stored length of the source\<close>

lemma heap_PyLong_NumBits: "heap (snd (PyLong_NumBits s p)) = heap s"
  by (simp add: PyLong_NumBits_def Let_def PyErr_SetString_def)

lemma heap_PyLong_AsUnsignedLongLong: "heap (snd (PyLong_AsUnsignedLongLong s p)) = heap s"
  by (simp add: PyLong_AsUnsignedLongLong_def Let_def PyErr_SetString_def)

lemma heap_PyLong_AsByteArray: "heap (snd (PyLong_AsByteArray s p n)) = heap s"
  by (simp add: PyLong_AsByteArray_def Let_def PyErr_SetString_def)

lemma heap_toJsBigInt_build:
  assumes "toJsBigInt_build malloc_ok s p k = Returns (r, s')"
  shows "heap s' = heap s"
proof (cases "k \<le> 1")
  case True
  then show ?thesis
    using assms heap_PyLong_AsUnsignedLongLong [of s p]
    by (cases "PyLong_AsUnsignedLongLong s p") (auto simp: toJsBigInt_build_def)
next
  case False
  then show ?thesis
    using assms
      heap_PyLong_AsByteArray [of s p "unat (of_nat JS_DIGIT_BYTE * ucast k :: 64 word)"]
    by (cases "PyLong_AsByteArray s p (unat (of_nat JS_DIGIT_BYTE * ucast k :: 64 word))")
       (auto simp: toJsBigInt_build_def Let_def split: if_splits)
qed

lemma heap_force_restore:
  assumes "heap s2 = heap (toJsBigInt_force s0 p)"
  shows "heap (Py_SET_SIZE s2 p (Py_SIZE s0 p)) = heap s0"
proof (cases "p < length (heap s0)")
  case True
  then show ?thesis
    using assms by (simp add: toJsBigInt_force_def Py_SET_SIZE_def Py_SIZE_def Let_def
        list_update_same_conv)
next
  case False
  then show ?thesis
    using assms by (simp add: toJsBigInt_force_def Py_SET_SIZE_def Py_SIZE_def Let_def
        list_update_beyond)
qed

text \<open>Every call of the encoder that returns leaves every host object as it was.\<close>

lemma heap_toJsBigInt:
  assumes "toJsBigInt malloc_ok s p = Returns (r, s')"
  shows "heap s' = heap s"
proof -
  obtain bc s0 where nb: "PyLong_NumBits s p = (bc, s0)" by (cases "PyLong_NumBits s p")
  have h0: "heap s0 = heap s" using heap_PyLong_NumBits [of s p] nb by simp
  show ?thesis
  proof (cases "bc = - 1 \<and> PyErr_Occurred s0")
    case True
    then show ?thesis using assms h0 by (auto simp: toJsBigInt_def nb)
  next
    case False
    from False assms obtain bi s2 where
      bd: "toJsBigInt_build malloc_ok (toJsBigInt_force s0 p) p (jsDigitCount_of bc)
           = Returns (bi, s2)"
      by (cases "toJsBigInt_build malloc_ok (toJsBigInt_force s0 p) p (jsDigitCount_of bc)")
         (auto simp: toJsBigInt_def nb Let_def)
    have h2: "heap s2 = heap (toJsBigInt_force s0 p)"
      using bd by (rule heap_toJsBigInt_build)
    have nn: "\<not> Py_SIZE s0 p < 0 \<Longrightarrow> heap s2 = heap s0"
      using h2 by (simp add: toJsBigInt_force_def Let_def)
    show ?thesis
      using False assms h0 nn heap_force_restore [OF h2]
      by (auto simp: toJsBigInt_def nb bd Let_def split: option.splits if_splits)
  qed
qed

lemma Py_SIZE_of_int_neg:
  assumes "heap s ! p = PyLong_of_int t n" and "n < 0"
  shows "Py_SIZE s p < 0"
  using ob_size_of_int_sgn [of t n] assms by (simp add: Py_SIZE_def sgn_if split: if_splits)

lemma PyLong_AsUnsignedLongLong_negative:
  assumes "Py_SIZE s p < 0"
  shows "PyLong_AsUnsignedLongLong s p
         = (- 1, PyErr_SetString s PyExc_OverflowError
                   ''can't convert negative int to unsigned'')"
  using assms by (simp add: PyLong_AsUnsignedLongLong_def Py_SIZE_def)

text \<open>
  C8. For a negative source integer: the stored length is negative on entry; the encoder
  builds the big integer from the state in which the stored length is negated, hence
  positive; every call that returns leaves every host object, the stored length of the
  source with it, as it was on entry; and when the engine takes the magnitude and the
  buffer is handed out, the export from the forced state yields the magnitude with no
  error set, and the encoder returns it with the sign bit set, in the very state of
  entry. The same export from the state of entry is refused with an OverflowError.
\<close>

theorem toJsBigInt_size_restored:
  assumes valid: "p < length (heap s)"
    and obj: "heap s ! p = PyLong_of_int t n"
    and neg: "n < 0"
  shows "Py_SIZE s p < 0
       \<and> Py_SIZE (toJsBigInt_force s p) p = - Py_SIZE s p
       \<and> (\<forall>r s'. toJsBigInt malloc_ok s p = Returns (r, s') \<longrightarrow> heap s' = heap s)
       \<and> (bits_in_digit (nat \<bar>n\<bar>) \<le> MaxBitLength
            \<and> malloc_ok (8 * digit_count_spec (bits_in_digit (nat \<bar>n\<bar>))) \<longrightarrow>
            toJsBigInt_build malloc_ok (toJsBigInt_force s p) p
                (jsDigitCount_of (fst (PyLong_NumBits s p)))
              = Returns (Some (BigInt_of_nat (nat \<bar>n\<bar>)), toJsBigInt_force s p)
            \<and> toJsBigInt malloc_ok s p
              = Returns (Some ((BigInt_of_nat (nat \<bar>n\<bar>))\<lparr>flagsField := SIGN_BIT_MASK\<rparr>), s))
       \<and> PyLong_AsUnsignedLongLong s p
           = (- 1, PyErr_SetString s PyExc_OverflowError
                     ''can't convert negative int to unsigned'')"
proof -
  have sz: "Py_SIZE s p < 0" using obj neg by (rule Py_SIZE_of_int_neg)
  have force: "Py_SIZE (toJsBigInt_force s p) p = - Py_SIZE s p"
    using valid sz by (simp add: Py_SIZE_def toJsBigInt_force_def Py_SET_SIZE_def Let_def)
  have frame: "\<forall>r s'. toJsBigInt malloc_ok s p = Returns (r, s') \<longrightarrow> heap s' = heap s"
    using heap_toJsBigInt by blast
  have refused: "PyLong_AsUnsignedLongLong s p
           = (- 1, PyErr_SetString s PyExc_OverflowError
                     ''can't convert negative int to unsigned'')"
    using sz by (rule PyLong_AsUnsignedLongLong_negative)
  have success: "toJsBigInt_build malloc_ok (toJsBigInt_force s p) p
                (jsDigitCount_of (fst (PyLong_NumBits s p)))
              = Returns (Some (BigInt_of_nat (nat \<bar>n\<bar>)), toJsBigInt_force s p)
            \<and> toJsBigInt malloc_ok s p
              = Returns (Some ((BigInt_of_nat (nat \<bar>n\<bar>))\<lparr>flagsField := SIGN_BIT_MASK\<rparr>), s)"
    if bits: "bits_in_digit (nat \<bar>n\<bar>) \<le> MaxBitLength"
      and mem: "malloc_ok (8 * digit_count_spec (bits_in_digit (nat \<bar>n\<bar>)))"
  proof -
    have le: "bits_in_digit (nat \<bar>n\<bar>) \<le> SIZE_MAX"
      using bits MaxBitLength_le by (simp add: SIZE_MAX_def)
    have nb: "PyLong_NumBits s p = (of_nat (bits_in_digit (nat \<bar>n\<bar>)), s)"
      using obj le by (rule PyLong_NumBits_of_int)
    have fs: "toJsBigInt_force s p = s\<lparr>heap := (heap s)[p := PyLong_of_int t \<bar>n\<bar>]\<rparr>"
      using valid obj by (rule toJsBigInt_force_of_int)
    have obj1: "heap (toJsBigInt_force s p) ! p = PyLong_of_int t (int (nat \<bar>n\<bar>))"
      using valid by (simp add: fs)
    have b: "toJsBigInt_build malloc_ok (toJsBigInt_force s p) p
                (jsDigitCount_of (of_nat (bits_in_digit (nat \<bar>n\<bar>))))
              = Returns (Some (BigInt_of_nat (nat \<bar>n\<bar>)), toJsBigInt_force s p)"
      using obj1 bits mem by (rule toJsBigInt_build_of_nat)
    have e: "toJsBigInt malloc_ok s p
              = Returns (Some ((BigInt_of_nat (nat \<bar>n\<bar>))
                   \<lparr>flagsField := (if n < 0 then SIGN_BIT_MASK else 0)\<rparr>), s)"
      using valid obj bits mem by (rule toJsBigInt_of_int)
    show ?thesis using b e neg by (simp add: nb)
  qed
  show ?thesis
    using sz force frame refused success by blast
qed

theorem toJsBigInt_size_restored_witness:
  "Py_SIZE \<lparr>heap = [PyLong_of_int PyLong_Type (- 5)], small_int_zero = 0, err = None\<rparr> 0 < 0
   \<and> toJsBigInt (\<lambda>n. True)
        \<lparr>heap = [PyLong_of_int PyLong_Type (- 5)], small_int_zero = 0, err = None\<rparr> 0
       = Returns (Some ((BigInt_of_nat (nat \<bar>- 5\<bar>))\<lparr>flagsField := SIGN_BIT_MASK\<rparr>),
           \<lparr>heap = [PyLong_of_int PyLong_Type (- 5)], small_int_zero = 0, err = None\<rparr>)
   \<and> heap \<lparr>heap = [PyLong_of_int PyLong_Type (- 5)], small_int_zero = 0, err = None\<rparr>
       = [PyLong_of_int PyLong_Type (- 5)]"
proof -
  let ?s = "\<lparr>heap = [PyLong_of_int PyLong_Type (- 5)], small_int_zero = 0, err = None\<rparr>"
  have valid: "0 < length (heap ?s)" by simp
  have obj: "heap ?s ! 0 = PyLong_of_int PyLong_Type (- 5)" by simp
  have neg: "(- 5 :: int) < 0" by simp
  have "bits_in_digit 5 = 3" by (rule bits_in_digit_unique) simp_all
  then have bits: "bits_in_digit (nat \<bar>- 5\<bar>) \<le> MaxBitLength"
    by (simp add: MaxBitLength_def)
  note t = toJsBigInt_size_restored [OF valid obj neg, of "\<lambda>n. True"]
  have a: "Py_SIZE ?s 0 < 0" using t by blast
  have b: "toJsBigInt (\<lambda>n. True) ?s 0
       = Returns (Some ((BigInt_of_nat (nat \<bar>- 5\<bar>))\<lparr>flagsField := SIGN_BIT_MASK\<rparr>), ?s)"
    using t bits by blast
  have c: "heap ?s = [PyLong_of_int PyLong_Type (- 5)]" by simp
  from a b c show ?thesis by (intro conjI)
qed

subsection \<open>Decoding zero\<close>

lemma IntType_BigInt_zero:
  assumes "lengthField b = 0"
  shows "IntType_BigInt s b
         = (IntType (length (heap s)),
            s\<lparr>heap := heap s @ [\<lparr>ob_type = PythonMonkey_BigInt, ob_size = 0, ob_digit = []\<rparr>]\<rparr>)"
  using assms
  by (simp add: IntType_BigInt_def PyLong_New_def alloc_def Py_SET_SIZE_def Py_SET_TYPE_def
      Py_SIZE_def Let_def)

text \<open>
  C4. Decoding a big integer whose digit count is zero allocates: the wrapper holds the
  address one past every object that existed before, where a new zero of the module's
  big-integer type now lives, and decoding a zero again yields the next address, a
  different one. The byte-buffer primitive called with length zero would have returned
  the shared small integer instead, allocating nothing.
\<close>

theorem IntType_BigInt_zero_new:
  assumes "lengthField b = 0" and "lengthField b' = 0"
  shows "IntType_BigInt s b
         = (IntType (length (heap s)),
            s\<lparr>heap := heap s @ [\<lparr>ob_type = PythonMonkey_BigInt, ob_size = 0, ob_digit = []\<rparr>]\<rparr>)
       \<and> fst (IntType_BigInt (snd (IntType_BigInt s b)) b') = IntType (Suc (length (heap s)))
       \<and> PyLong_FromByteArray s bytes 0 = (small_int_zero s, s)"
  using assms by (simp add: IntType_BigInt_zero PyLong_FromByteArray_def)

theorem IntType_BigInt_zero_new_witness:
  "IntType_BigInt \<lparr>heap = [\<lparr>ob_type = PyLong_Type, ob_size = 0, ob_digit = []\<rparr>],
                   small_int_zero = 0, err = None\<rparr>
     \<lparr>flagsField = 0, lengthField = 0, digitStorage = []\<rparr>
   = (IntType 1,
      \<lparr>heap = [\<lparr>ob_type = PyLong_Type, ob_size = 0, ob_digit = []\<rparr>,
                \<lparr>ob_type = PythonMonkey_BigInt, ob_size = 0, ob_digit = []\<rparr>],
       small_int_zero = 0, err = None\<rparr>)"
proof -
  let ?s = "\<lparr>heap = [\<lparr>ob_type = PyLong_Type, ob_size = 0, ob_digit = []\<rparr>],
             small_int_zero = 0, err = None\<rparr>"
  let ?b = "\<lparr>flagsField = 0, lengthField = 0, digitStorage = []\<rparr>"
  have z: "lengthField ?b = 0" by simp
  have "IntType_BigInt ?s ?b
        = (IntType (length (heap ?s)),
           ?s\<lparr>heap := heap ?s @ [\<lparr>ob_type = PythonMonkey_BigInt, ob_size = 0, ob_digit = []\<rparr>]\<rparr>)"
    using IntType_BigInt_zero_new [OF z z, of ?s] by (rule conjunct1)
  then show ?thesis by simp
qed

subsection \<open>Decoding what the encoder built\<close>

lemma length_digit_bytes: "length (digit_bytes ws) = 8 * length ws"
  by (induction ws) (simp_all add: digit_bytes_def length_digits_pad JS_DIGIT_BYTE_def)

lemma unat_byte_pad:
  "map unat (map of_nat (digits_pad 256 k x) :: 8 word list) = digits_pad 256 k x"
proof -
  have "\<And>d. d \<in> set (digits_pad 256 k x) \<Longrightarrow> unat (of_nat d :: 8 word) = d"
  proof -
    fix d
    assume "d \<in> set (digits_pad 256 k x)"
    then have "d < 256" by (rule digits_pad_lt [rotated]) simp
    then show "unat (of_nat d :: 8 word) = d" by (simp add: unat_of_nat)
  qed
  then show ?thesis by (simp add: map_idI)
qed

lemma unat_byte_pad_comp:
  "map (unat \<circ> (of_nat :: nat \<Rightarrow> 8 word)) (digits_pad 256 k x) = digits_pad 256 k x"
  using unat_byte_pad [of k x] by simp

lemma from_digits_digit_bytes:
  "from_digits 256 (map unat (digit_bytes ws)) = from_digits (2 ^ JS_DIGIT_BIT) (map unat ws)"
proof (induction ws)
  case Nil
  then show ?case by (simp add: digit_bytes_def)
next
  case (Cons w ws)
  have lt: "unat w < 256 ^ 8" using unsigned_less [of w] by simp
  have "map unat (digit_bytes (w # ws))
        = digits_pad 256 8 (unat w) @ map unat (digit_bytes ws)"
    by (simp add: digit_bytes_def JS_DIGIT_BYTE_def unat_byte_pad_comp)
  then have "from_digits 256 (map unat (digit_bytes (w # ws)))
        = unat w mod 256 ^ 8 + 256 ^ 8 * from_digits 256 (map unat (digit_bytes ws))"
    by (simp only: from_digits_append from_digits_pad length_digits_pad)
  also have "\<dots> = unat w + 2 ^ JS_DIGIT_BIT * from_digits (2 ^ JS_DIGIT_BIT) (map unat ws)"
    using lt by (simp add: Cons.IH JS_DIGIT_BIT_def)
  finally show ?case by simp
qed

lemma unat_js_digits:
  "map unat (map of_nat (digits_of (2 ^ JS_DIGIT_BIT) m) :: 64 word list)
   = digits_of (2 ^ JS_DIGIT_BIT) m"
proof -
  have "\<And>d. d \<in> set (digits_of (2 ^ JS_DIGIT_BIT) m) \<Longrightarrow> unat (of_nat d :: 64 word) = d"
  proof -
    fix d
    assume "d \<in> set (digits_of (2 ^ JS_DIGIT_BIT) m)"
    with JS_base_ge2 have "d < 2 ^ JS_DIGIT_BIT" by (rule digits_of_lt)
    then show "unat (of_nat d :: 64 word) = d" by (simp add: unat_of_nat JS_DIGIT_BIT_def)
  qed
  then show ?thesis by (simp add: map_idI)
qed

lemma BigInt_of_nat_bytes:
  "from_digits 256 (map unat (digit_bytes (digitStorage (BigInt_of_nat m)))) = m"
  by (simp add: from_digits_digit_bytes BigInt_of_nat_def unat_js_digits
      from_digits_digits_of [OF JS_base_ge2] del: map_map)

lemma alloc_set_size_type:
  "Py_SET_TYPE (Py_SET_SIZE (snd (alloc s ob)) (length (heap s)) z) (length (heap s)) t
   = s\<lparr>heap := heap s @ [ob\<lparr>ob_size := z, ob_type := t\<rparr>]\<rparr>"
  by (simp add: alloc_def Py_SET_SIZE_def Py_SET_TYPE_def)

lemma alloc_set_type:
  "Py_SET_TYPE (snd (alloc s ob)) (length (heap s)) t
   = s\<lparr>heap := heap s @ [ob\<lparr>ob_type := t\<rparr>]\<rparr>"
  by (simp add: alloc_def Py_SET_TYPE_def)

text \<open>
  What the byte-buffer primitive is called with, for a big integer of non-zero
  magnitude \<open>m\<close>: all the bytes of its digits, which spell \<open>m\<close>.
\<close>

lemma IntType_BigInt_nonzero:
  assumes len: "length (digits_of (2 ^ JS_DIGIT_BIT) m) < 2 ^ 32"
    and fl: "f = 0 \<or> f = SIGN_BIT_MASK"
    and nz: "m \<noteq> 0"
  shows "IntType_BigInt s ((BigInt_of_nat m)\<lparr>flagsField := f\<rparr>)
         = (let (pyObject, s1) =
                  (if m < NSMALLPOSINTS then (small_int_zero s + m, s)
                   else alloc s (PyLong_of_int PyLong_Type (int m)));
                s2 = (if f \<noteq> 0 then Py_SET_SIZE s1 pyObject (- Py_SIZE s1 pyObject) else s1)
            in (IntType pyObject, Py_SET_TYPE s2 pyObject PythonMonkey_BigInt))"
proof -
  define b where "b = (BigInt_of_nat m)\<lparr>flagsField := f\<rparr>"
  define l where "l = length (digits_of (2 ^ JS_DIGIT_BIT) m)"
  have neg: "BigIntIsNegative b \<longleftrightarrow> f \<noteq> 0"
    using fl by (auto simp: BigIntIsNegative_def b_def SIGN_BIT_MASK_def)
  have lf: "lengthField b = of_nat l" by (simp add: b_def BigInt_of_nat_def l_def)
  have ul: "unat (of_nat l :: 32 word) = l" using len by (simp add: unat_of_nat l_def)
  have st: "digitStorage b = digitStorage (BigInt_of_nat m)" by (simp add: b_def)
  have lpos: "0 < l"
    unfolding l_def using JS_base_ge2 nz by (simp add: digits_of_nonempty)
  have nzl: "lengthField b \<noteq> 0"
  proof
    assume "lengthField b = 0"
    then have "unat (of_nat l :: 32 word) = 0" using lf by simp
    with ul lpos show False by simp
  qed
  have n: "unat (lengthField b) * JS_DIGIT_BYTE = length (digit_bytes (digitStorage b))"
    by (simp add: lf ul length_digit_bytes st BigInt_of_nat_def l_def [symmetric]
        JS_DIGIT_BYTE_def)
  have pos: "unat (lengthField b) * JS_DIGIT_BYTE \<noteq> 0"
    using lpos by (simp add: lf ul JS_DIGIT_BYTE_def)
  have fba: "PyLong_FromByteArray s (digit_bytes (digitStorage b))
                (unat (lengthField b) * JS_DIGIT_BYTE)
              = (if m < NSMALLPOSINTS then (small_int_zero s + m, s)
                 else alloc s (PyLong_of_int PyLong_Type (int m)))"
    unfolding PyLong_FromByteArray_def n using pos [unfolded n]
    by (simp add: st BigInt_of_nat_bytes Let_def)
  show ?thesis
    using nzl
    by (simp add: IntType_BigInt_def b_def [symmetric] Let_def fba neg)
qed

text \<open>
  A magnitude above the small integers is decoded into a new object, the object of the
  integer the big integer stands for.
\<close>

lemma IntType_BigInt_of_nat:
  assumes len: "length (digits_of (2 ^ JS_DIGIT_BIT) m) < 2 ^ 32"
    and fl: "f = 0 \<or> f = SIGN_BIT_MASK"
    and big: "m = 0 \<or> NSMALLPOSINTS \<le> m"
  shows "IntType_BigInt s ((BigInt_of_nat m)\<lparr>flagsField := f\<rparr>)
         = (IntType (length (heap s)),
            s\<lparr>heap := heap s @
                 [PyLong_of_int PythonMonkey_BigInt (if f = 0 then int m else - int m)]\<rparr>)"
proof (cases "m = 0")
  case True
  have z: "lengthField ((BigInt_of_nat m)\<lparr>flagsField := f\<rparr>) = 0"
    using True by (simp add: BigInt_of_nat_def digits_of_0)
  have e: "PyLong_of_int PythonMonkey_BigInt 0
        = \<lparr>ob_type = PythonMonkey_BigInt, ob_size = 0, ob_digit = []\<rparr>"
    by (simp add: PyLong_of_int_def digits_of_0)
  have v: "(if f = 0 then int m else - int m) = 0" using True by simp
  have "IntType_BigInt s ((BigInt_of_nat m)\<lparr>flagsField := f\<rparr>)
        = (IntType (length (heap s)),
           s\<lparr>heap := heap s @
              [\<lparr>ob_type = PythonMonkey_BigInt, ob_size = 0, ob_digit = []\<rparr>]\<rparr>)"
    using z by (rule IntType_BigInt_zero)
  then show ?thesis unfolding v e .
next
  case False
  with big have ge: "\<not> m < NSMALLPOSINTS" by simp
  have q: "fst (alloc s (PyLong_of_int PyLong_Type (int m))) = length (heap s)"
    by (simp add: alloc_def)
  have sz: "Py_SIZE (snd (alloc s (PyLong_of_int PyLong_Type (int m)))) (length (heap s))
            = ob_size (PyLong_of_int PyLong_Type (int m))"
    by (simp add: alloc_def Py_SIZE_def)
  have negobj: "(PyLong_of_int PyLong_Type (int m))
                  \<lparr>ob_size := - ob_size (PyLong_of_int PyLong_Type (int m)),
                   ob_type := PythonMonkey_BigInt\<rparr>
                = PyLong_of_int PythonMonkey_BigInt (- int m)"
    by (simp add: PyLong_of_int_def)
  show ?thesis
    unfolding IntType_BigInt_nonzero [OF len fl False]
    using ge
    by (simp add: Let_def split_def q sz alloc_set_size_type alloc_set_type negobj
        PyLong_of_int_set_type)
qed

text \<open>
  A magnitude among the small integers is decoded into the interpreter's own object
  of that integer: no object is made, and the sign and the type are written into the
  shared object.
\<close>

lemma PyLong_of_int_neg_set:
  "(PyLong_of_int t x)\<lparr>ob_size := - ob_size (PyLong_of_int t x), ob_type := t'\<rparr>
   = PyLong_of_int t' (- x)"
  by (simp add: PyLong_of_int_def)

lemma IntType_BigInt_small:
  assumes fl: "f = 0 \<or> f = SIGN_BIT_MASK"
    and pos: "0 < m" and small: "m < NSMALLPOSINTS"
    and valid: "small_int_zero s + m < length (heap s)"
    and obj: "heap s ! (small_int_zero s + m) = PyLong_of_int t x"
  shows "IntType_BigInt s ((BigInt_of_nat m)\<lparr>flagsField := f\<rparr>)
         = (IntType (small_int_zero s + m),
            s\<lparr>heap := (heap s)[small_int_zero s + m :=
                 PyLong_of_int PythonMonkey_BigInt (if f = 0 then x else - x)]\<rparr>)"
proof -
  have "m < 2 ^ JS_DIGIT_BIT" using small by (simp add: NSMALLPOSINTS_def JS_DIGIT_BIT_def)
  then have "length (digits_of (2 ^ JS_DIGIT_BIT) m) = 1"
    using pos by (simp add: digits_of_single)
  then have len: "length (digits_of (2 ^ JS_DIGIT_BIT) m) < 2 ^ 32" by simp
  have nz: "m \<noteq> 0" using pos by simp
  show ?thesis
    unfolding IntType_BigInt_nonzero [OF len fl nz]
    using small valid obj
    by (simp add: Let_def Py_SET_SIZE_def Py_SET_TYPE_def Py_SIZE_def
        PyLong_of_int_neg_set PyLong_of_int_set_type)
qed

subsection \<open>The round trip\<close>

text \<open>
  Where the decoder makes a new object, the round trip is exact. For zero and for every
  integer \<open>n\<close> of magnitude above the small integers that the engine takes, negative
  integers included, encoding the host object of \<open>n\<close> and decoding the result
  returns a wrapper of a new object and leaves the state otherwise as it was; the new
  object is the host object of \<open>n\<close> with the module's big-integer type, so its
  value is \<open>n\<close> and the sign of its stored length is the sign of \<open>n\<close>.
\<close>

lemma roundtrip_new_object:
  assumes valid: "p < length (heap s)"
    and obj: "heap s ! p = PyLong_of_int t n"
    and bits: "bits_in_digit (nat \<bar>n\<bar>) \<le> MaxBitLength"
    and mem: "1 < digit_count_spec (bits_in_digit (nat \<bar>n\<bar>)) \<Longrightarrow>
              malloc_ok (8 * digit_count_spec (bits_in_digit (nat \<bar>n\<bar>)))"
    and big: "n = 0 \<or> int NSMALLPOSINTS \<le> \<bar>n\<bar>"
  shows "roundtrip malloc_ok s p
         = Returns (Some (IntType (length (heap s))),
                    s\<lparr>heap := heap s @ [PyLong_of_int PythonMonkey_BigInt n]\<rparr>)
       \<and> py_value (PyLong_of_int PythonMonkey_BigInt n) = n
       \<and> sgn (ob_size (PyLong_of_int PythonMonkey_BigInt n)) = sgn n"
proof -
  have "length (digits_of (2 ^ JS_DIGIT_BIT) (nat \<bar>n\<bar>)) \<le> MaxDigitLength"
    using bits by (rule length_js_digits_cap)
  then have len: "length (digits_of (2 ^ JS_DIGIT_BIT) (nat \<bar>n\<bar>)) < 2 ^ 32"
    using MaxDigitLength_lt by (rule order.strict_trans1)
  have fl: "(if n < 0 then SIGN_BIT_MASK else 0) = 0
            \<or> (if n < 0 then SIGN_BIT_MASK else 0) = SIGN_BIT_MASK"
    by simp
  have big': "nat \<bar>n\<bar> = 0 \<or> NSMALLPOSINTS \<le> nat \<bar>n\<bar>" using big by auto
  have v: "(if (if n < 0 then SIGN_BIT_MASK else 0) = 0 then int (nat \<bar>n\<bar>)
            else - int (nat \<bar>n\<bar>)) = n"
    by (simp add: SIGN_BIT_MASK_def)
  have enc: "toJsBigInt malloc_ok s p
         = Returns (Some ((BigInt_of_nat (nat \<bar>n\<bar>))
                            \<lparr>flagsField := (if n < 0 then SIGN_BIT_MASK else 0)\<rparr>), s)"
    using valid obj bits mem by (rule toJsBigInt_of_int)
  have r: "roundtrip malloc_ok s p
         = Returns (Some (IntType (length (heap s))),
                    s\<lparr>heap := heap s @ [PyLong_of_int PythonMonkey_BigInt n]\<rparr>)"
    unfolding roundtrip_def enc
    by (simp only: outcome.case prod.case option.case IntType_BigInt_of_nat [OF len fl big']
        v Let_def)
  show ?thesis
    using r py_value_of_int [of PythonMonkey_BigInt n]
      ob_size_of_int_sgn [of PythonMonkey_BigInt n]
    by (intro conjI)
qed

text \<open>
  Where the magnitude is among the small integers, the wrapper the round trip returns
  holds the interpreter's own object of the magnitude, and the sign of the source is
  applied to whatever that object holds.
\<close>

lemma bits_in_digit_le:
  assumes "m < 2 ^ k"
  shows "bits_in_digit m \<le> k"
proof (cases "m = 0")
  case True
  then show ?thesis by (simp add: bits_in_digit_0)
next
  case False
  then have "(2::nat) ^ (bits_in_digit m - 1) \<le> m" by (intro bits_in_digit_lower) simp
  then have "(2::nat) ^ (bits_in_digit m - 1) < 2 ^ k" using assms by (rule order.strict_trans1)
  then have "bits_in_digit m - 1 < k" by (rule power_less_imp_less_exp [rotated]) simp
  then show ?thesis by simp
qed

lemma roundtrip_small:
  assumes valid: "p < length (heap s)"
    and obj: "heap s ! p = PyLong_of_int t n"
    and pos: "n \<noteq> 0" and small: "\<bar>n\<bar> < int NSMALLPOSINTS"
    and cvalid: "small_int_zero s + nat \<bar>n\<bar> < length (heap s)"
    and cobj: "heap s ! (small_int_zero s + nat \<bar>n\<bar>) = PyLong_of_int t' x"
  shows "roundtrip malloc_ok s p
         = Returns (Some (IntType (small_int_zero s + nat \<bar>n\<bar>)),
                    s\<lparr>heap := (heap s)[small_int_zero s + nat \<bar>n\<bar> :=
                         PyLong_of_int PythonMonkey_BigInt (if n < 0 then - x else x)]\<rparr>)"
proof -
  define m where "m = nat \<bar>n\<bar>"
  have mpos: "0 < m" and msmall: "m < NSMALLPOSINTS" using pos small by (auto simp: m_def)
  have "m < 2 ^ 9" using msmall by (simp add: NSMALLPOSINTS_def)
  then have "bits_in_digit m \<le> 9" by (rule bits_in_digit_le)
  then have b64: "bits_in_digit m \<le> 64" by simp
  then have bits: "bits_in_digit (nat \<bar>n\<bar>) \<le> MaxBitLength"
    by (simp add: m_def MaxBitLength_def)
  have "digit_count_spec (bits_in_digit m) = 1" using b64 by (simp add: digit_count_spec_def)
  then have mem: "1 < digit_count_spec (bits_in_digit (nat \<bar>n\<bar>)) \<Longrightarrow>
              malloc_ok (8 * digit_count_spec (bits_in_digit (nat \<bar>n\<bar>)))"
    by (simp add: m_def)
  have fl: "(if n < 0 then SIGN_BIT_MASK else 0) = 0
            \<or> (if n < 0 then SIGN_BIT_MASK else 0) = SIGN_BIT_MASK"
    by simp
  have v: "(if (if n < 0 then SIGN_BIT_MASK else 0) = 0 then x else - x)
           = (if n < 0 then - x else x)"
    by (simp add: SIGN_BIT_MASK_def)
  have enc: "toJsBigInt malloc_ok s p
         = Returns (Some ((BigInt_of_nat (nat \<bar>n\<bar>))
                            \<lparr>flagsField := (if n < 0 then SIGN_BIT_MASK else 0)\<rparr>), s)"
    using valid obj bits mem by (rule toJsBigInt_of_int)
  show ?thesis
    unfolding roundtrip_def enc
    by (simp only: outcome.case prod.case option.case Let_def v
        IntType_BigInt_small [OF fl mpos [unfolded m_def] msmall [unfolded m_def] cvalid cobj])
qed

lemma small_ints_nth:
  "i < 262 \<Longrightarrow> heap small_ints_state ! i = PyLong_of_int PyLong_Type (int i - 5)"
  by (simp add: small_ints_state_def)

lemma small_ints_length: "length (heap small_ints_state) = 262"
  by (simp add: small_ints_state_def)

lemma small_ints_zero: "small_int_zero small_ints_state = 5"
  by (simp add: small_ints_state_def)

text \<open>
  C1. The round trip does not hold of the code. In a state that holds the
  interpreter's small integers, the integer -5 at address 0 and the integer 5 at
  address 10: the round trip of -5 returns a wrapper of address 10, the interpreter's
  own 5, and has made that object hold -5; the round trip of the same -5 once more
  returns a wrapper of the same object, which now holds 5, so the value that comes
  back for -5 is 5.
\<close>

theorem roundtrip_small_int_drift:
  "heap small_ints_state ! 0 = PyLong_of_int PyLong_Type (- 5)
   \<and> heap small_ints_state ! 10 = PyLong_of_int PyLong_Type 5
   \<and> roundtrip malloc_ok small_ints_state 0
       = Returns (Some (IntType 10),
           small_ints_state\<lparr>heap := (heap small_ints_state)
              [10 := PyLong_of_int PythonMonkey_BigInt (- 5)]\<rparr>)
   \<and> roundtrip malloc_ok
        (small_ints_state\<lparr>heap := (heap small_ints_state)
              [10 := PyLong_of_int PythonMonkey_BigInt (- 5)]\<rparr>) 0
       = Returns (Some (IntType 10),
           small_ints_state\<lparr>heap := (heap small_ints_state)
              [10 := PyLong_of_int PythonMonkey_BigInt 5]\<rparr>)
   \<and> py_value (PyLong_of_int PythonMonkey_BigInt 5) = 5"
proof -
  let ?s1 = "small_ints_state\<lparr>heap := (heap small_ints_state)
              [10 := PyLong_of_int PythonMonkey_BigInt (- 5)]\<rparr>"
  have a: "heap small_ints_state ! 0 = PyLong_of_int PyLong_Type (- 5)"
    using small_ints_nth [of 0] by simp
  have b: "heap small_ints_state ! 10 = PyLong_of_int PyLong_Type 5"
    using small_ints_nth [of 10] by simp
  have c: "roundtrip malloc_ok small_ints_state 0
       = Returns (Some (IntType 10),
           small_ints_state\<lparr>heap := (heap small_ints_state)
              [10 := PyLong_of_int PythonMonkey_BigInt (- 5)]\<rparr>)"
    using roundtrip_small [of 0 small_ints_state PyLong_Type "- 5" PyLong_Type 5 malloc_ok]
      a b
    by (simp add: small_ints_length small_ints_zero NSMALLPOSINTS_def)
  have a1: "heap ?s1 ! 0 = PyLong_of_int PyLong_Type (- 5)"
    using a by (simp add: small_ints_length)
  have b1: "heap ?s1 ! 10 = PyLong_of_int PythonMonkey_BigInt (- 5)"
    by (simp add: small_ints_length)
  have d: "roundtrip malloc_ok ?s1 0
       = Returns (Some (IntType 10),
           small_ints_state\<lparr>heap := (heap small_ints_state)
              [10 := PyLong_of_int PythonMonkey_BigInt 5]\<rparr>)"
    using roundtrip_small [of 0 ?s1 PyLong_Type "- 5" PythonMonkey_BigInt "- 5" malloc_ok]
      a1 b1
    by (simp add: small_ints_length small_ints_zero NSMALLPOSINTS_def)
  have e: "py_value (PyLong_of_int PythonMonkey_BigInt 5) = 5"
    by (rule py_value_of_int)
  from a b c d e show ?thesis by (intro conjI)
qed

subsection \<open>Beyond what the engine takes\<close>

lemma length_digits_of_gt:
  assumes b: "2 \<le> b" and le: "b ^ k \<le> n"
  shows "k < length (digits_of b n)"
proof -
  have "from_digits b (digits_of b n) < b ^ length (digits_of b n)"
    by (rule from_digits_lt) (rule digits_of_lt [OF b])
  then have "n < b ^ length (digits_of b n)" by (simp only: from_digits_digits_of [OF b])
  with le have "b ^ k < b ^ length (digits_of b n)" by (rule order.strict_trans1)
  then show ?thesis by (rule power_less_imp_less_exp [rotated]) (use b in simp)
qed

lemma length_js_digits_over:
  assumes "MaxBitLength < bits_in_digit m"
  shows "MaxDigitLength < length (digits_of (2 ^ JS_DIGIT_BIT) m)"
proof -
  have pos: "0 < m" using assms by (cases "m = 0") (simp_all add: bits_in_digit_0)
  have "MaxBitLength \<le> bits_in_digit m - 1" using assms by simp
  then have "(2::nat) ^ MaxBitLength \<le> 2 ^ (bits_in_digit m - 1)"
    by (intro power_increasing) simp_all
  also have "\<dots> \<le> m" using pos by (rule bits_in_digit_lower)
  finally have "(2::nat) ^ MaxBitLength \<le> m" .
  then have "((2::nat) ^ JS_DIGIT_BIT) ^ MaxDigitLength \<le> m"
    by (simp only: MaxBitLength_digits power_mult)
  with JS_base_ge2 show ?thesis by (rule length_digits_of_gt)
qed

lemma toJsBigInt_build_refused:
  assumes obj: "heap s ! p = PyLong_of_int t (int m)"
    and over: "MaxBitLength < bits_in_digit m"
    and bits': "bits_in_digit m \<le> 64 * (2 ^ 32 - 1)"
    and mem: "malloc_ok (8 * digit_count_spec (bits_in_digit m))"
  shows "toJsBigInt_build malloc_ok s p (jsDigitCount_of (of_nat (bits_in_digit m)))
         = Returns (None, s)"
proof -
  define nb where "nb = bits_in_digit m"
  define k where "k = jsDigitCount_of (of_nat nb)"
  have nb64: "nb < 2 ^ 64" using bits' by (simp add: nb_def)
  have ub: "unat (of_nat nb :: 64 word) = nb" using nb64 by (simp add: unat_of_nat)
  have "unat (of_nat nb :: 64 word) \<le> 64 * (2 ^ 32 - 1)"
    unfolding ub using bits' by (simp add: nb_def)
  from unat_jsDigitCount_of [OF this] have uk: "unat k = digit_count_spec nb"
    by (simp only: k_def ub)
  have mlt: "m < 2 ^ nb" unfolding nb_def by (rule bits_in_digit_upper)
  have "64 < nb" using over by (simp add: nb_def MaxBitLength_def)
  then have "1 < digit_count_spec nb" by (simp add: digit_count_spec_def)
  then have k1: "1 < unat k" by (simp only: uk)
  then have nle: "\<not> k \<le> 1" by (auto simp: word_le_nat_alt)
  have ok: "malloc_ok (8 * unat k)" using mem by (simp add: uk nb_def)
  have "nb \<le> 64 * unat k" unfolding uk by (rule digit_count_spec_covers)
  then have "(2::nat) ^ nb \<le> 2 ^ (64 * unat k)" by (intro power_increasing) simp_all
  with mlt have "m < 2 ^ (64 * unat k)" by (rule order.strict_trans2)
  then have fit: "m < 256 ^ (8 * unat k)" by (simp only: pow256_8)
  have pos: "0 < 8 * unat k" using k1 by simp
  have cap: "MaxDigitLength < length (digits_of (2 ^ JS_DIGIT_BIT) m)"
    using over by (rule length_js_digits_over)
  show ?thesis
    using nle ok
    by (simp add: toJsBigInt_build_def k_def [symmetric] nb_def [symmetric] Let_def
        unat_byteCount PyLong_AsByteArray_of_nat [OF obj fit]
        SimpleStringToBigInt_hex_refused [OF pos fit cap])
qed

text \<open>
  For a magnitude of more bits than the engine's big integers have, the engine hands
  back null. For a positive source that null is the result; for a negative source the
  sign is written through it.
\<close>

lemma toJsBigInt_beyond_capacity:
  assumes valid: "p < length (heap s)"
    and obj: "heap s ! p = PyLong_of_int t n"
    and over: "MaxBitLength < bits_in_digit (nat \<bar>n\<bar>)"
    and bits': "bits_in_digit (nat \<bar>n\<bar>) \<le> 64 * (2 ^ 32 - 1)"
    and mem: "malloc_ok (8 * digit_count_spec (bits_in_digit (nat \<bar>n\<bar>)))"
  shows "toJsBigInt malloc_ok s p = (if n < 0 then Crash else Returns (None, s))"
proof -
  define m where "m = nat \<bar>n\<bar>"
  define s1 where "s1 = s\<lparr>heap := (heap s)[p := PyLong_of_int t \<bar>n\<bar>]\<rparr>"
  have le: "bits_in_digit m \<le> SIZE_MAX" using bits' by (simp add: SIZE_MAX_def m_def)
  have nb: "PyLong_NumBits s p = (of_nat (bits_in_digit m), s)"
    unfolding m_def using obj le [unfolded m_def] by (rule PyLong_NumBits_of_int)
  have ub: "unat (of_nat (bits_in_digit m) :: 64 word) = bits_in_digit m"
    using bits' by (simp add: unat_of_nat m_def)
  have um: "unat (- 1 :: 64 word) = 2 ^ 64 - 1"
    by (simp add: unsigned_minus_1_eq_mask mask_eq_exp_minus_1)
  have ne: "(of_nat (bits_in_digit m) :: 64 word) \<noteq> - 1"
  proof
    assume a: "(of_nat (bits_in_digit m) :: 64 word) = - 1"
    have "unat (of_nat (bits_in_digit m) :: 64 word) = unat (- 1 :: 64 word)"
      by (simp only: a)
    then have "bits_in_digit m = 2 ^ 64 - 1" by (simp only: ub um)
    with bits' show False by (simp add: m_def)
  qed
  have force: "toJsBigInt_force s p = s1"
    unfolding s1_def using valid obj by (rule toJsBigInt_force_of_int)
  have obj1: "heap s1 ! p = PyLong_of_int t (int m)"
    using valid by (simp add: s1_def m_def)
  have build: "toJsBigInt_build malloc_ok s1 p (jsDigitCount_of (of_nat (bits_in_digit m)))
               = Returns (None, s1)"
    using obj1 over [folded m_def] bits' [folded m_def] mem [folded m_def]
    by (rule toJsBigInt_build_refused)
  have neg: "Py_SIZE s p < 0 \<longleftrightarrow> n < 0"
    using ob_size_of_int_sgn [of t n] obj by (simp add: Py_SIZE_def sgn_if split: if_splits)
  have same: "\<not> n < 0 \<Longrightarrow> s1 = s"
    using valid obj by (simp add: s1_def list_update_same_conv)
  show ?thesis
    using ne same
    by (simp add: toJsBigInt_def nb force build neg m_def [symmetric])
qed

text \<open>
  The integer \<open>- (2 ^ MaxBitLength)\<close> is such a source: with the buffer handed out,
  the encoder does not return.
\<close>

lemma toJsBigInt_beyond_capacity_crash:
  "toJsBigInt (\<lambda>n. True)
     \<lparr>heap = [PyLong_of_int PyLong_Type (- (2 ^ MaxBitLength))],
      small_int_zero = 0, err = None\<rparr> 0 = Crash
   \<and> roundtrip (\<lambda>n. True)
     \<lparr>heap = [PyLong_of_int PyLong_Type (- (2 ^ MaxBitLength))],
      small_int_zero = 0, err = None\<rparr> 0 = Crash"
proof -
  let ?s = "\<lparr>heap = [PyLong_of_int PyLong_Type (- (2 ^ MaxBitLength))],
             small_int_zero = 0, err = None\<rparr>"
  have valid: "0 < length (heap ?s)" by simp
  have obj: "heap ?s ! 0 = PyLong_of_int PyLong_Type (- (2 ^ MaxBitLength))" by simp
  have m: "nat \<bar>- (2 ^ MaxBitLength) :: int\<bar> = 2 ^ MaxBitLength"
    by (simp add: nat_power_eq)
  have b: "bits_in_digit (nat \<bar>- (2 ^ MaxBitLength) :: int\<bar>) = Suc MaxBitLength"
    by (simp only: m bits_in_digit_power2)
  have over: "MaxBitLength < bits_in_digit (nat \<bar>- (2 ^ MaxBitLength) :: int\<bar>)"
    by (simp only: b lessI)
  have bits': "bits_in_digit (nat \<bar>- (2 ^ MaxBitLength) :: int\<bar>) \<le> 64 * (2 ^ 32 - 1)"
    unfolding b by (simp add: MaxBitLength_def)
  have neg: "- (2 ^ MaxBitLength) < (0::int)" by simp
  have c: "toJsBigInt (\<lambda>n. True) ?s 0 = Crash"
    using toJsBigInt_beyond_capacity [of 0 ?s PyLong_Type "- (2 ^ MaxBitLength)" "\<lambda>n. True",
        OF valid obj over bits'] neg
    by (simp only: if_True simp_thms)
  show ?thesis
    by (simp only: roundtrip_def c outcome.case simp_thms)
qed

end
